theory Spec2Isabelle
  imports Main "HOL-Library.Word" "HOL-Library.Monad_Syntax"
begin

unbundle bit_operations_syntax

section \<open>Machine types, constants and array access\<close>

text \<open>
  The driver is C++ for the ESP32-S3: \<open>uint8_t\<close>, \<open>uint16_t\<close> and \<open>uint32_t\<close> are
  words of that width, \<open>int\<close> has 32 bits. Operands narrower than \<open>int\<close> are promoted to
  \<open>int\<close> before arithmetic; where the promoted value cannot leave the range of \<open>int\<close>
  it is modelled as a mathematical integer, and a store into a narrower variable
  truncates it again.
\<close>

type_synonym u8 = "8 word"
type_synonym u16 = "16 word"
type_synonym u32 = "32 word"

definition MAX_MSG_SIZE :: nat where
  "MAX_MSG_SIZE = 255"

definition COMMAND_TIME_OUT :: u16 where
  "COMMAND_TIME_OUT = 2000"

definition TMR_SR_OPCODE_READ_TAG_ID_MULTIPLE :: u8 where
  "TMR_SR_OPCODE_READ_TAG_ID_MULTIPLE = 0x22"

definition TMR_SR_OPCODE_GET_TAG_ID_BUFFER :: u8 where
  "TMR_SR_OPCODE_GET_TAG_ID_BUFFER = 0x29"

definition TMR_SR_OPCODE_CLEAR_TAG_ID_BUFFER :: u8 where
  "TMR_SR_OPCODE_CLEAR_TAG_ID_BUFFER = 0x2A"

definition TMR_SR_OPCODE_GET_TEMPERATURE :: u8 where
  "TMR_SR_OPCODE_GET_TEMPERATURE = 0x72"

definition TMR_SR_OPCODE_SET_READER_OPTIONAL_PARAMS :: u8 where
  "TMR_SR_OPCODE_SET_READER_OPTIONAL_PARAMS = 0x9A"

definition ALL_GOOD :: u8 where
  "ALL_GOOD = 0"

definition ERROR_COMMAND_RESPONSE_TIMEOUT :: u8 where
  "ERROR_COMMAND_RESPONSE_TIMEOUT = 1"

definition ERROR_CORRUPT_RESPONSE :: u8 where
  "ERROR_CORRUPT_RESPONSE = 2"

definition ERROR_WRONG_OPCODE_RESPONSE :: u8 where
  "ERROR_WRONG_OPCODE_RESPONSE = 3"

definition ERROR_UNKNOWN_OPCODE :: u8 where
  "ERROR_UNKNOWN_OPCODE = 4"

definition RESPONSE_IS_TEMPERATURE :: u8 where
  "RESPONSE_IS_TEMPERATURE = 5"

definition RESPONSE_IS_KEEPALIVE :: u8 where
  "RESPONSE_IS_KEEPALIVE = 6"

definition RESPONSE_IS_TEMPTHROTTLE :: u8 where
  "RESPONSE_IS_TEMPTHROTTLE = 7"

definition RESPONSE_IS_TAGFOUND :: u8 where
  "RESPONSE_IS_TAGFOUND = 8"

definition RESPONSE_IS_NOTAGFOUND :: u8 where
  "RESPONSE_IS_NOTAGFOUND = 9"

definition RESPONSE_IS_UNKNOWN :: u8 where
  "RESPONSE_IS_UNKNOWN = 10"

definition RESPONSE_SUCCESS :: u8 where
  "RESPONSE_SUCCESS = 11"

definition RESPONSE_FAIL :: u8 where
  "RESPONSE_FAIL = 12"

definition ERROR_INVALID_EPC_REQ :: u8 where
  "ERROR_INVALID_EPC_REQ = 13"

definition ERROR_INVALID_REQ :: u8 where
  "ERROR_INVALID_REQ = 14"

definition TMR_GEN2_BANK_RESERVED :: u8 where
  "TMR_GEN2_BANK_RESERVED = 0x0"

definition TMR_GEN2_BANK_EPC :: u8 where
  "TMR_GEN2_BANK_EPC = 0x1"

definition TMR_GEN2_BANK_TID :: u8 where
  "TMR_GEN2_BANK_TID = 0x2"

definition TMR_GEN2_BANK_USER :: u8 where
  "TMR_GEN2_BANK_USER = 0x3"

definition TMR_GEN2_BANK_RESERVED_ENABLED :: u8 where
  "TMR_GEN2_BANK_RESERVED_ENABLED = 0x4"

definition TMR_GEN2_BANK_TID_ENABLED :: u8 where
  "TMR_GEN2_BANK_TID_ENABLED = 0x10"

definition TMR_GEN2_BANK_USER_ENABLED :: u8 where
  "TMR_GEN2_BANK_USER_ENABLED = 0x20"

definition TMR_MAX_EPC_BYTE_COUNT :: nat where
  "TMR_MAX_EPC_BYTE_COUNT = 32"

text \<open>
  An array is a list whose length is the array's size. C++ leaves an access outside the
  array undefined; the model makes every such access the value \<open>None\<close>, which then is
  the result of the whole operation. The index is the promoted \<open>int\<close>, so that an index
  that went negative is out of range too.
\<close>

definition rd :: "u8 list \<Rightarrow> int \<Rightarrow> u8 option" where
  "rd a i = (if 0 \<le> i \<and> i < int (length a) then Some (a ! nat i) else None)"

definition wr :: "u8 list \<Rightarrow> int \<Rightarrow> u8 \<Rightarrow> u8 list option" where
  "wr a i v = (if 0 \<le> i \<and> i < int (length a) then Some (a[nat i := v]) else None)"

section \<open>The CRC of the frame codec\<close>

definition crctable :: "u16 list" where
  "crctable = [0x0000, 0x1021, 0x2042, 0x3063, 0x4084, 0x50a5, 0x60c6, 0x70e7,
               0x8108, 0x9129, 0xa14a, 0xb16b, 0xc18c, 0xd1ad, 0xe1ce, 0xf1ef]"

text \<open>
  One assignment of the loop body of \<open>calculateCRC\<close>,
  \<^verbatim>\<open>crc = ((crc << 4) | nib) ^ crctable[crc >> 12]\<close>: the right-hand side is computed on
  32-bit \<open>int\<close>s and stored into the 16-bit \<open>crc\<close>.
\<close>

definition crc_assign :: "u16 \<Rightarrow> u8 \<Rightarrow> u16" where
  "crc_assign crc nib =
     ucast ((push_bit 4 (ucast crc :: u32) OR ucast nib)
            XOR ucast (crctable ! unat (drop_bit 12 crc)) :: u32)"

function crc_loop :: "u8 list \<Rightarrow> u8 \<Rightarrow> nat \<Rightarrow> u16 \<Rightarrow> u16 option" where
  "crc_loop u8Buf len i crc =
     (if i < unat len then
        (case rd u8Buf (int i) of
           None \<Rightarrow> None
         | Some b \<Rightarrow>
             crc_loop u8Buf len (Suc i)
               (crc_assign (crc_assign crc (drop_bit 4 b)) (b AND 0x0F)))
      else Some crc)"
  by pat_completeness auto
termination
  by (relation "measure (\<lambda>(u8Buf, len, i, crc). unat len - i)") auto

declare crc_loop.simps [simp del]

definition calculateCRC :: "u8 list \<Rightarrow> u8 \<Rightarrow> u16 option" where
  "calculateCRC u8Buf len = crc_loop u8Buf len 0 0xFFFF"

text \<open>
  The algorithm in the words of the specification: seed \<open>0xFFFF\<close>; every byte gives two
  nibbles, the high one first; each nibble updates
  \<open>crc = ((crc << 4) | nibble) ^ table[crc >> 12]\<close> on 16 bits.
\<close>

definition crc16_step :: "u16 \<Rightarrow> nat \<Rightarrow> u16" where
  "crc16_step crc nibble =
     (push_bit 4 crc OR of_nat nibble) XOR crctable ! unat (drop_bit 12 crc)"

definition nibbles :: "u8 \<Rightarrow> nat list" where
  "nibbles b = [unat b div 16, unat b mod 16]"

definition crc16 :: "u8 list \<Rightarrow> u16" where
  "crc16 bs = foldl crc16_step 0xFFFF (concat (map nibbles bs))"

section \<open>The reader, its serial stream and the synchronous transport\<close>

text \<open>
  The serial stream behind \<open>_rfidSerial\<close>. \<open>rx\<close> holds the bytes that \<open>available()\<close>
  reports and \<open>read()\<close> hands out, oldest first; \<open>tx\<close> is every byte \<open>write()\<close> has
  sent. Time is not modelled. Instead \<open>peer\<close> lists, for each command still to be
  written, the bytes the module delivers before the deadlines of that exchange run out:
  no entry, or an empty one, is a module that stays silent until the timeout.
\<close>

record Stream =
  rx :: "u8 list"
  tx :: "u8 list"
  peer :: "u8 list list"

text \<open>
  The members of class \<open>RFID\<close> that the modelled functions touch (the source writes
  \<open>_head\<close>, \<open>_continuousModeTemp\<close>, \<open>_contTemp\<close>, \<open>_rfidSerial\<close>). \<open>_contTemp\<close> is an
  \<open>int8_t\<close>: the word is read with \<open>sint\<close>. Debug printing is left out.
\<close>

record RFID =
  msg :: "u8 list"
  head :: u8
  continuousModeTemp :: bool
  contTemp :: u8
  rfidSerial :: Stream

text \<open>\<open>uint8_t msg[MAX_MSG_SIZE]\<close>: the functions see \<open>MAX_MSG_SIZE\<close> entries and no more.\<close>

definition msg_arr :: "RFID \<Rightarrow> u8 list" where
  "msg_arr r = take MAX_MSG_SIZE (msg r)"

text \<open>\<^verbatim>\<open>while (_rfidSerial->available()) _rfidSerial->read();\<close>\<close>

definition flush_input :: "Stream \<Rightarrow> Stream" where
  "flush_input s = s\<lparr>rx := []\<rparr>"

definition write_bytes :: "Stream \<Rightarrow> u8 list \<Rightarrow> Stream" where
  "write_bytes s bs = s\<lparr>tx := tx s @ bs\<rparr>"

text \<open>The module's answer to the command just written arrives.\<close>

definition module_answers :: "Stream \<Rightarrow> Stream" where
  "module_answers s =
     (case peer s of [] \<Rightarrow> s | b # bs \<Rightarrow> s\<lparr>rx := rx s @ b, peer := bs\<rparr>)"

text \<open>
  The head of \<open>sendCommand\<close>: the header byte, and the CRC over \<open>LEN\<close>, \<open>OPCODE\<close> and the
  data, stored behind the data.
\<close>

definition attach_crc :: "u8 list \<Rightarrow> u8 list option" where
  "attach_crc m = do {
     m0 \<leftarrow> wr m 0 0xFF;
     messageLength \<leftarrow> rd m0 1;
     crc \<leftarrow> calculateCRC (drop 1 m0) (messageLength + 2);
     m1 \<leftarrow> wr m0 (uint messageLength + 3) (ucast (drop_bit 8 crc));
     wr m1 (uint messageLength + 4) (ucast (crc AND 0xFF))
   }"

text \<open>
  The loop \<^verbatim>\<open>while (spot < messageLength)\<close> of \<open>sendCommand\<close>, over the bytes that
  arrive. It ends with the flag \<open>True\<close> when \<open>spot\<close> has reached \<open>messageLength\<close>, and
  with \<open>False\<close> (the second timeout) when the bytes end before that. Also returned:
  the array, \<open>messageLength\<close>, and the bytes not read.
\<close>

fun receive_loop ::
  "u8 list \<Rightarrow> u8 \<Rightarrow> u8 \<Rightarrow> u8 list \<Rightarrow> (bool \<times> u8 list \<times> u8 \<times> u8 list) option" where
  "receive_loop m spot messageLength [] = Some (\<not> spot < messageLength, m, messageLength, [])"
| "receive_loop m spot messageLength (b # bs) =
     (if spot < messageLength then do {
        m' \<leftarrow> wr m (uint spot) b;
        messageLength' \<leftarrow>
          (if spot = 1 then map_option (\<lambda>len. len + 7) (rd m' 1) else Some messageLength);
        receive_loop m' ((spot + 1) mod 255) messageLength' bs
      }
      else Some (True, m, messageLength, b # bs))"

text \<open>
  The tail of \<open>sendCommand\<close>: the CRC check, then the opcode check, then \<open>ALL_GOOD\<close>; the
  verdict goes to \<open>msg[0]\<close>. The right operand of \<open>||\<close> is read only when the left one
  is false.
\<close>

definition check_response :: "u8 list \<Rightarrow> u8 \<Rightarrow> u8 \<Rightarrow> u8 list option" where
  "check_response m messageLength opcode = do {
     crc \<leftarrow> calculateCRC (drop 1 m) (messageLength - 3);
     hi \<leftarrow> rd m (uint messageLength - 2);
     if uint hi \<noteq> uint (drop_bit 8 crc) then wr m 0 ERROR_CORRUPT_RESPONSE
     else do {
       lo \<leftarrow> rd m (uint messageLength - 1);
       if uint lo \<noteq> uint (crc AND 0xFF) then wr m 0 ERROR_CORRUPT_RESPONSE
       else do {
         opc \<leftarrow> rd m 2;
         if opc \<noteq> opcode then wr m 0 ERROR_WRONG_OPCODE_RESPONSE
         else wr m 0 ALL_GOOD
       }
     }
   }"

text \<open>
  \<open>sendCommand\<close>. The loop that writes the command counts with a \<open>uint8_t\<close> up to
  \<open>messageLength + 5\<close>: beyond 255 it would never end.
\<close>

definition sendCommand :: "RFID \<Rightarrow> u16 \<Rightarrow> bool \<Rightarrow> RFID option" where
  "sendCommand r timeOut waitForResponse = do {
     m \<leftarrow> attach_crc (msg_arr r);
     messageLength \<leftarrow> rd m 1;
     opcode \<leftarrow> rd m 2;
     if 255 < uint messageLength + 5 then None
     else do {
       let s = module_answers
                 (write_bytes (flush_input (rfidSerial r)) (take (nat (uint messageLength + 5)) m));
       if \<not> waitForResponse then Some (r\<lparr>msg := m, rfidSerial := flush_input s\<rparr>)
       else if rx s = [] then do {
         m' \<leftarrow> wr m 0 ERROR_COMMAND_RESPONSE_TIMEOUT;
         Some (r\<lparr>msg := m', rfidSerial := s\<rparr>)
       }
       else do {
         (complete, m', messageLength', rest) \<leftarrow>
           receive_loop m 0 (of_nat (MAX_MSG_SIZE - 1)) (rx s);
         if \<not> complete then do {
           m'' \<leftarrow> wr m' 0 ERROR_COMMAND_RESPONSE_TIMEOUT;
           Some (r\<lparr>msg := m'', rfidSerial := s\<lparr>rx := rest\<rparr>\<rparr>)
         }
         else do {
           m'' \<leftarrow> check_response m' messageLength' opcode;
           Some (r\<lparr>msg := m'', rfidSerial := s\<lparr>rx := rest\<rparr>\<rparr>)
         }
       }
     }
   }"

text \<open>
  \<open>sendMessage\<close>: length, opcode and data go into \<open>msg\<close>, then \<open>sendCommand\<close>. \<open>data\<close> is
  the caller's array.
\<close>

fun copy_data :: "u8 list \<Rightarrow> u8 list \<Rightarrow> nat \<Rightarrow> nat \<Rightarrow> u8 list option" where
  "copy_data m data x 0 = Some m"
| "copy_data m data x (Suc n) = do {
     d \<leftarrow> rd data (int x);
     m' \<leftarrow> wr m (3 + int x) d;
     copy_data m' data (Suc x) n
   }"

definition sendMessage :: "RFID \<Rightarrow> u8 \<Rightarrow> u8 list \<Rightarrow> u8 \<Rightarrow> u16 \<Rightarrow> bool \<Rightarrow> RFID option" where
  "sendMessage r opcode data size' timeOut waitForResponse = do {
     m1 \<leftarrow> wr (msg_arr r) 1 size';
     m2 \<leftarrow> wr m1 2 opcode;
     m3 \<leftarrow> copy_data m2 data 0 (unat size');
     sendCommand (r\<lparr>msg := m3\<rparr>) timeOut waitForResponse
   }"

section \<open>Single commands and the classifier of continuous mode\<close>

definition setReaderConfiguration :: "RFID \<Rightarrow> u8 \<Rightarrow> u8 \<Rightarrow> RFID option" where
  "setReaderConfiguration r option1 option2 =
     sendMessage r TMR_SR_OPCODE_SET_READER_OPTIONAL_PARAMS [1, option1, option2] 3
       COMMAND_TIME_OUT True"

definition disableReadFilter :: "RFID \<Rightarrow> RFID option" where
  "disableReadFilter r = setReaderConfiguration r 0x0C 0x00"

text \<open>\<open>getTemp\<close> returns an \<open>int8_t\<close>, here its value.\<close>

definition getTemp :: "RFID \<Rightarrow> (RFID \<times> int) option" where
  "getTemp r =
     (if continuousModeTemp r then
        (if 0 < sint (contTemp r) then Some (r, sint (contTemp r)) else Some (r, - 1))
      else do {
        r' \<leftarrow> sendMessage r TMR_SR_OPCODE_GET_TEMPERATURE [] 0 COMMAND_TIME_OUT True;
        st \<leftarrow> rd (msg_arr r') 0;
        if st = ALL_GOOD then do {
          t \<leftarrow> rd (msg_arr r') 5;
          Some (r', sint t)
        }
        else Some (r', - 1)
      })"

text \<open>
  \<^verbatim>\<open>int8_t RFID::getTagRSSI(void) { return (msg[12] - 256); }\<close>: the difference is an
  \<open>int\<close>, the return converts it to \<open>int8_t\<close>.
\<close>

definition getTagRSSI :: "RFID \<Rightarrow> int option" where
  "getTagRSSI r = do {
     b \<leftarrow> rd (msg_arr r) 12;
     Some (sint (word_of_int (uint b - 256) :: 8 word))
   }"

text \<open>
  \<open>parseResponse\<close>. \<open>statusMsg\<close> starts as 0 and is assembled from \<open>msg[3]\<close> and \<open>msg[4]\<close>
  in the branch for length 0 only; the branch for length \<open>0x0E\<close> tests the variable as
  it stands. A branch that ends without \<open>return\<close> falls through to the last line of
  the function.
\<close>

definition parseResponse :: "RFID \<Rightarrow> u8 option" where
  "parseResponse r = do {
     let m = msg_arr r;
     len \<leftarrow> rd m 1;
     let msgLength = len + 7;
     opCode \<leftarrow> rd m 2;
     let statusMsg = (0 :: u16);
     messageCRC \<leftarrow> calculateCRC (drop 1 m) (msgLength - 3);
     hi \<leftarrow> rd m (uint msgLength - 2);
     if uint hi \<noteq> uint (drop_bit 8 messageCRC) then Some ERROR_CORRUPT_RESPONSE
     else do {
       lo \<leftarrow> rd m (uint msgLength - 1);
       if uint lo \<noteq> uint (messageCRC AND 0xFF) then Some ERROR_CORRUPT_RESPONSE
       else if opCode = TMR_SR_OPCODE_READ_TAG_ID_MULTIPLE then
         (if len = 0x00 then do {
            s3 \<leftarrow> rd m 3;
            let statusMsg = statusMsg OR ucast (push_bit 8 (ucast s3 :: u32));
            s4 \<leftarrow> rd m 4;
            let statusMsg = statusMsg OR ucast (push_bit 0 (ucast s4 :: u32));
            if statusMsg = 0x0400 then Some RESPONSE_IS_KEEPALIVE
            else if statusMsg = 0x0504 then Some RESPONSE_IS_TEMPTHROTTLE
            else Some ERROR_UNKNOWN_OPCODE
          }
          else if len = 0x08 then Some RESPONSE_IS_UNKNOWN
          else if len = 0x0E then
            (if statusMsg = 0x0400 then Some RESPONSE_IS_KEEPALIVE
             else Some ERROR_UNKNOWN_OPCODE)
          else if len = 0x0A then Some RESPONSE_IS_TEMPERATURE
          else Some RESPONSE_IS_TAGFOUND)
       else Some ERROR_UNKNOWN_OPCODE
     }
   }"

section \<open>Frames in the words of the specification\<close>

text \<open>
  A frame on the wire is \<open>0xFF | len | opcode | ... | crc_hi | crc_lo\<close> and has
  \<open>len + 7\<close> bytes. Its CRC is computed over the bytes after the header up to the two
  trailing bytes, and the frame is valid when the trailing two bytes are that value.
\<close>

definition complete_frame :: "u8 list \<Rightarrow> bool" where
  "complete_frame f \<longleftrightarrow> length f = unat (f ! 1) + 7"

definition frame_crc :: "u8 list \<Rightarrow> u16" where
  "frame_crc f = crc16 (take (length f - 3) (drop 1 f))"

definition trailing_crc :: "u8 list \<Rightarrow> u16" where
  "trailing_crc f = push_bit 8 (ucast (f ! (length f - 2))) OR ucast (f ! (length f - 1))"

definition crc_valid :: "u8 list \<Rightarrow> bool" where
  "crc_valid f \<longleftrightarrow> frame_crc f = trailing_crc f"

text \<open>The status word: the first two bytes behind the opcode of a response.\<close>

definition status_word :: "u8 list \<Rightarrow> u16" where
  "status_word f = push_bit 8 (ucast (f ! 3)) OR ucast (f ! 4)"

text \<open>
  For a frame of the inventory opcode the specification documents these combinations
  of length and status word: length 0 with status \<open>0x0400\<close> (keep-alive) or \<open>0x0504\<close>
  (temperature throttle); length 14 with status \<open>0x0400\<close> (keep-alive); length 10
  (temperature sample); any other length (stats update or tag record). What matches
  none of them is a frame of length 0 with another status word, or of length 14 with
  another status word.
\<close>

definition unrecognised :: "u8 list \<Rightarrow> bool" where
  "unrecognised f \<longleftrightarrow>
     f ! 1 = 0x00 \<and> status_word f \<noteq> 0x0400 \<and> status_word f \<noteq> 0x0504 \<or>
     f ! 1 = 0x0E \<and> status_word f \<noteq> 0x0400"

text \<open>
  A reader in continuous mode whose \<open>msg\<close> holds the frame \<open>f\<close> and zeros behind it, as
  \<open>check()\<close> leaves the array when a frame is complete.
\<close>

definition reader_holding :: "u8 list \<Rightarrow> RFID" where
  "reader_holding f =
     \<lparr>msg = f @ replicate (MAX_MSG_SIZE - length f) 0, head = 0, continuousModeTemp = True,
      contTemp = 0, rfidSerial = \<lparr>rx = [], tx = [], peer = []\<rparr>\<rparr>"

text \<open>
  The response that the comment in \<open>parseResponse\<close> gives for the branch of length
  \<open>0x0E\<close> (status \<open>04 00\<close>), with its CRC.
\<close>

definition keepalive14_frame :: "u8 list" where
  "keepalive14_frame =
     [0xFF, 0x0E, 0x22, 0x04, 0x00, 0x00, 0x01, 0x1F, 0x00, 0x00, 0x00, 0x00, 0x00, 0x01, 0x28,
      0x00, 0x00, 0x00, 0x00, 0xFA, 0x40]"

text \<open>
  Three more frames of opcode \<open>0x22\<close> with a right CRC: nothing behind a status word
  \<open>00 00\<close>; the frame of length \<open>0x0E\<close> above with the status word \<open>00 00\<close>; eight bytes
  behind the status word.
\<close>

definition status0_frame :: "u8 list" where
  "status0_frame = [0xFF, 0x00, 0x22, 0x00, 0x00, 0x80, 0xE0]"

definition other14_frame :: "u8 list" where
  "other14_frame =
     [0xFF, 0x0E, 0x22, 0x00, 0x00, 0x00, 0x01, 0x1F, 0x00, 0x00, 0x00, 0x00, 0x00, 0x01, 0x28,
      0x00, 0x00, 0x00, 0x00, 0x07, 0xE5]"

definition unknown8_frame :: "u8 list" where
  "unknown8_frame =
     [0xFF, 0x08, 0x22, 0x00, 0x00, 0x00, 0x00, 0x00, 0x00, 0x00, 0x00, 0x00, 0x00, 0xAF, 0x29]"

text \<open>
  A reader outside continuous mode whose \<open>msg\<close> starts with \<open>m\<close>, in front of a module
  that will answer the commands to come with \<open>replies\<close>.
\<close>

definition reader_with :: "u8 list \<Rightarrow> u8 list list \<Rightarrow> RFID" where
  "reader_with m replies =
     \<lparr>msg = m @ replicate (MAX_MSG_SIZE - length m) 0, head = 0, continuousModeTemp = False,
      contTemp = 0, rfidSerial = \<lparr>rx = [], tx = [], peer = replies\<rparr>\<rparr>"



section \<open>The selective-match loop\<close>

record SelectEPC =
  TMR_EPC :: "u8 list"
  EPClen :: u8
  EPCoffset :: u8
  RetryCount :: u8

text \<open>
  The request of \<open>SelectiveReadDataRegion\<close>: the fixed blob, the caller's timeout in
  bytes 4 and 5, and the flag of the bank to read besides the EPC bank in byte 14.
\<close>

definition select_configBlob :: "u8 \<Rightarrow> u16 \<Rightarrow> u8 list" where
  "select_configBlob bank timeOut =
     (let blob = [0x88, 0x10, 0x00, 0x17, 0x01, 0xf4, 0x0f, 0xff, 0x01, 0x09, 0x28, 0x07, 0xd0,
                  0x00, 0x01, 0x00, 0x00, 0x00, 0x00, 0x00];
          blob = blob[4 := ucast (drop_bit 8 timeOut AND 0xFF)];
          blob = blob[5 := ucast (timeOut AND 0xFF)]
      in if bank = TMR_GEN2_BANK_EPC then blob
         else if bank = TMR_GEN2_BANK_USER then blob[14 := blob ! 14 OR TMR_GEN2_BANK_USER_ENABLED]
         else if bank = TMR_GEN2_BANK_TID then blob[14 := blob ! 14 OR TMR_GEN2_BANK_TID_ENABLED]
         else if bank = TMR_GEN2_BANK_RESERVED then
           blob[14 := blob ! 14 OR TMR_GEN2_BANK_RESERVED_ENABLED]
         else blob)"

text \<open>
  \<^verbatim>\<open>for (e = 0; e < selepc->EPClen; e++) if (msg[EPCstart + e] != selepc->TMR_EPC[e]) break;\<close>
  The result is \<open>e\<close> behind the loop.
\<close>

function match_loop :: "u8 list \<Rightarrow> u8 \<Rightarrow> SelectEPC \<Rightarrow> nat \<Rightarrow> nat option" where
  "match_loop m EPCstart selepc e =
     (if e < unat (EPClen selepc) then do {
        a \<leftarrow> rd m (uint EPCstart + int e);
        b \<leftarrow> rd (TMR_EPC selepc) (int e);
        if a \<noteq> b then Some e else match_loop m EPCstart selepc (Suc e)
      }
      else Some e)"
  by pat_completeness auto
termination
  by (relation "measure (\<lambda>(m, EPCstart, selepc, e). unat (EPClen selepc) - e)") auto

declare match_loop.simps [simp del]

text \<open>
  \<^verbatim>\<open>while (!MatchFound)\<close>. The result is the reader, and with it either the code of an
  early \<open>return\<close> or nothing, when the loop was left with \<open>MatchFound\<close>. The read command is
  sent with the default timeout of \<open>sendMessage\<close>; the caller's timeout is in the blob.
  The loop need not end; a loop that does not return has the value \<open>None\<close>.
\<close>

partial_function (option) select_loop ::
  "RFID \<Rightarrow> SelectEPC \<Rightarrow> u8 \<Rightarrow> u8 list \<Rightarrow> u8 \<Rightarrow> (u8 option \<times> RFID) option" where
  "select_loop r selepc EPCBankStartPos configBlob retryCount = do {
     r' \<leftarrow> sendMessage r TMR_SR_OPCODE_READ_TAG_ID_MULTIPLE configBlob 20 COMMAND_TIME_OUT True;
     st \<leftarrow> rd (msg_arr r') 0;
     if st \<noteq> ALL_GOOD then Some (Some RESPONSE_FAIL, r')
     else do {
       let EPCstart = EPCBankStartPos + EPCoffset selepc;
       e \<leftarrow> match_loop (msg_arr r') EPCstart selepc 0;
       if int e = uint (EPClen selepc) then Some (None, r')
       else if RetryCount selepc \<noteq> 0 then
         (if RetryCount selepc < retryCount then Some (Some ERROR_COMMAND_RESPONSE_TIMEOUT, r')
          else select_loop r' selepc EPCBankStartPos configBlob (retryCount + 1))
       else select_loop r' selepc EPCBankStartPos configBlob retryCount
     }
   }"

text \<open>
  \<^verbatim>\<open>for (x = 0; x < (length * 2) & x < dataLengthRead; x++) dataRead[x] = msg[BankStart + x];\<close>
  with \<open>lim\<close> for \<open>length * 2\<close> and \<open>cap\<close> for \<open>dataLengthRead\<close>. The result is the
  destination and \<open>x\<close> behind the loop.
\<close>

function copy_window ::
  "u8 list \<Rightarrow> u8 \<Rightarrow> nat \<Rightarrow> nat \<Rightarrow> u8 list \<Rightarrow> nat \<Rightarrow> (u8 list \<times> nat) option" where
  "copy_window m BankStart lim cap dataRead x =
     (if x < lim \<and> x < cap then do {
        b \<leftarrow> rd m (uint BankStart + int x);
        dataRead' \<leftarrow> wr dataRead (int x) b;
        copy_window m BankStart lim cap dataRead' (Suc x)
      }
      else Some (dataRead, x))"
  by pat_completeness auto
termination
  by (relation "measure (\<lambda>(m, BankStart, lim, cap, dataRead, x). cap - x)") auto

declare copy_window.simps [simp del]

text \<open>
  The part of \<open>SelectiveReadDataRegion\<close> behind the loop: the check of the requested
  window against the length of the bank, and the copy. \<open>address\<close> is a \<open>uint32_t\<close>, so
  \<open>(address * 2) + (length * 2)\<close> is computed on 32 bits without sign, and the
  comparison with \<open>Banklength\<close> is one of 32-bit values; \<open>BankStart\<close> is a \<open>uint8_t\<close>. The
  results are the return code, the destination and \<open>dataLengthRead\<close>.
\<close>

definition read_window ::
  "RFID \<Rightarrow> u8 \<Rightarrow> u32 \<Rightarrow> u8 \<Rightarrow> u8 list \<Rightarrow> u8 \<Rightarrow> (u8 \<times> u8 list \<times> u8) option" where
  "read_window r bank address length' dataRead dataLengthRead = do {
     (BankStartPos, Banklength) \<leftarrow>
       (if bank = TMR_GEN2_BANK_EPC then Some (23 :: u8, 12 :: u8)
        else do { b \<leftarrow> rd (msg_arr r) 38; Some (39, b) });
     if (ucast Banklength :: u32) < address * 2 + word_of_int (uint length' * 2)
     then Some (ERROR_INVALID_REQ, dataRead, 0)
     else do {
       let BankStart = (ucast ((ucast BankStartPos :: u32) + address * 2) :: u8);
       (dataRead', x) \<leftarrow>
         copy_window (msg_arr r) BankStart (nat (uint length' * 2)) (unat dataLengthRead) dataRead 0;
       Some (RESPONSE_SUCCESS, dataRead', of_nat x)
     }
   }"

text \<open>
  \<open>SelectiveReadDataRegion\<close>. The results are the reader, the return code, the
  destination \<open>dataRead\<close> and \<open>dataLengthRead\<close>.
\<close>

definition SelectiveReadDataRegion ::
  "RFID \<Rightarrow> SelectEPC \<Rightarrow> u8 \<Rightarrow> u32 \<Rightarrow> u8 \<Rightarrow> u8 list \<Rightarrow> u8 \<Rightarrow> u16 \<Rightarrow>
   (RFID \<times> u8 \<times> u8 list \<times> u8) option" where
  "SelectiveReadDataRegion r selepc bank address length' dataRead dataLengthRead timeOut =
     (if 12 < uint (EPCoffset selepc) + uint (EPClen selepc) \<or> EPCoffset selepc = 12
      then Some (r, ERROR_INVALID_EPC_REQ, dataRead, 0)
      else do {
        r1 \<leftarrow> sendMessage r TMR_SR_OPCODE_SET_READER_OPTIONAL_PARAMS [0x01, 0x08, 0x00] 3
                COMMAND_TIME_OUT True;
        r2 \<leftarrow> disableReadFilter r1;
        r3 \<leftarrow> sendMessage r2 TMR_SR_OPCODE_CLEAR_TAG_ID_BUFFER [] 0 COMMAND_TIME_OUT True;
        let configBlob = select_configBlob bank timeOut;
        let EPCBankStartPos = (if bank = TMR_GEN2_BANK_EPC then 23 else 25 :: u8);
        (early, r4) \<leftarrow> select_loop r3 selepc EPCBankStartPos configBlob 0;
        (case early of
           Some code \<Rightarrow> Some (r4, code, dataRead, 0)
         | None \<Rightarrow> do {
             (code, dataRead', dataLengthRead') \<leftarrow>
               read_window r4 bank address length' dataRead dataLengthRead;
             Some (r4, code, dataRead', dataLengthRead')
           })
      })"

text \<open>
  An answer to the read command of the loop that passes the checks of the transport and
  whose EPC bytes are not the pattern: a complete frame with a right CRC and the opcode
  of the command, with the compared bytes (\<open>EPClen\<close> bytes from \<open>EPCBankStartPos +
  EPCoffset\<close>) inside the frame and different from the first \<open>EPClen\<close> bytes of \<open>TMR_EPC\<close>.
\<close>

definition valid_mismatch :: "SelectEPC \<Rightarrow> u8 \<Rightarrow> u8 list \<Rightarrow> bool" where
  "valid_mismatch selepc EPCBankStartPos f \<longleftrightarrow>
     complete_frame f \<and> length f < MAX_MSG_SIZE \<and> crc_valid f \<and>
     f ! 2 = TMR_SR_OPCODE_READ_TAG_ID_MULTIPLE \<and>
     0 < unat EPCBankStartPos + unat (EPCoffset selepc) \<and>
     unat EPCBankStartPos + unat (EPCoffset selepc) + unat (EPClen selepc) \<le> length f \<and>
     unat (EPClen selepc) \<le> length (TMR_EPC selepc) \<and>
     take (unat (EPClen selepc)) (drop (unat EPCBankStartPos + unat (EPCoffset selepc)) f)
       \<noteq> take (unat (EPClen selepc)) (TMR_EPC selepc)"

text \<open>
  The response that the comment before \<open>SelectiveReadDataRegion\<close> gives for a request of
  the EPC bank alone (EPC \<open>E2 00 00 15 86 0E 02 88 15 40 29 80\<close> from index 23), with its
  CRC.
\<close>

definition epc_reply :: "u8 list" where
  "epc_reply =
     [0xFF, 0x1E, 0x22, 0x06, 0x01, 0x88, 0x00, 0x00, 0x17, 0x00, 0x00, 0x00, 0x29, 0x01, 0x28,
      0x00, 0x29, 0x00, 0x00, 0xB8, 0x57, 0x34, 0x00, 0xE2, 0x00, 0x00, 0x15, 0x86, 0x0E, 0x02,
      0x88, 0x15, 0x40, 0x29, 0x80, 0xD5, 0x92]"

text \<open>A filter for another tag: the first EPC byte is to be \<open>0xAA\<close>; three retries.\<close>

definition other_tag :: SelectEPC where
  "other_tag = \<lparr>TMR_EPC = [0xAA], EPClen = 1, EPCoffset = 0, RetryCount = 3\<rparr>"

text \<open>
  The response that the same comment gives for a request of the user bank: the EPC
  from index 25, the type of the other bank at index 37, its length at index 38, \<open>0x20\<close>
  (``32 words = 64 bytes''), and its 64 data bytes from index 39; with its CRC.
\<close>

definition user_reply :: "u8 list" where
  "user_reply =
     [0xFF, 0x62, 0x22, 0x06, 0x01, 0x88, 0x00, 0x00, 0x17, 0x00, 0x00, 0x00, 0x18, 0x01, 0x28,
      0x00, 0x18, 0x00, 0x00, 0x10, 0x08, 0xB8, 0x57, 0x34, 0x00, 0xE2, 0x00, 0x00, 0x15, 0x86,
      0x0E, 0x02, 0x88, 0x15, 0x40, 0x29, 0x80, 0x30, 0x20, 0xFF, 0xF1, 0x11, 0x22, 0x33, 0x44,
      0x33, 0x34, 0x42, 0x44, 0x74, 0x6F, 0x20, 0x77, 0x72, 0x69, 0x74, 0x65, 0x74, 0x6F, 0x20,
      0x63, 0x61, 0x72, 0x64] @ replicate 39 0x00 @ [0x38, 0xCB]"
section \<open>Reading all banks\<close>

text \<open>
  \<open>TMR_uint8List\<close> (the source names its members \<open>list\<close>, \<open>max\<close> and \<open>len\<close>): the caller's
  array, the number of entries there is space for, and the number of entries stored.
\<close>

record TMR_uint8List =
  list8 :: "u8 list"
  max8 :: u16
  len8 :: u16

text \<open>\<open>rssi\<close> is an \<open>int32_t\<close>: the word is read with \<open>sint\<close>.\<close>

record TMR_TagReadData =
  epc :: "u8 list"
  epclen :: u8
  TagCount :: u16
  succesCount :: u16
  failureCount :: u16
  rssi :: u32
  frequency :: u32
  timestamp :: u32
  epcMemData :: TMR_uint8List
  tidMemData :: TMR_uint8List
  userMemData :: TMR_uint8List
  reservedMemData :: TMR_uint8List

text \<open>
  \<^verbatim>\<open>for (uint8_t j = 0; j < bankLength; j++) list[j] = msg[offset + i + j];\<close> with \<open>base\<close>
  for \<open>offset + i\<close>.
\<close>

function copy_bank :: "u8 list \<Rightarrow> int \<Rightarrow> u8 list \<Rightarrow> nat \<Rightarrow> nat \<Rightarrow> u8 list option" where
  "copy_bank m base lst j bankLength =
     (if j < bankLength then do {
        b \<leftarrow> rd m (base + int j);
        lst' \<leftarrow> wr lst (int j) b;
        copy_bank m base lst' (Suc j) bankLength
      }
      else Some lst)"
  by pat_completeness auto
termination
  by (relation "measure (\<lambda>(m, base, lst, j, bankLength). bankLength - j)") auto

declare copy_bank.simps [simp del]

text \<open>The same loop in the branch of the EPC bank, which also fills \<open>read->epc\<close>.\<close>

function copy_epc ::
  "u8 list \<Rightarrow> int \<Rightarrow> u8 list \<Rightarrow> u8 list \<Rightarrow> nat \<Rightarrow> nat \<Rightarrow> (u8 list \<times> u8 list) option" where
  "copy_epc m base lst epc' j bankLength =
     (if j < bankLength then do {
        b \<leftarrow> rd m (base + int j);
        lst' \<leftarrow> wr lst (int j) b;
        epc'' \<leftarrow>
          (if 3 < j then
             (if int j - 4 < int TMR_MAX_EPC_BYTE_COUNT then do {
                v \<leftarrow> rd lst' (int j);
                wr epc' (int j - 4) v
              }
              else Some epc')
           else Some epc');
        copy_epc m base lst' epc'' (Suc j) bankLength
      }
      else Some (lst, epc'))"
  by pat_completeness auto
termination
  by (relation "measure (\<lambda>(m, base, lst, epc', j, bankLength). bankLength - j)") auto

declare copy_epc.simps [simp del]

text \<open>
  What the branches for the user, TID and reserved bank do with their list: clamp
  \<open>bankLength\<close> to \<open>max\<close>, copy, set \<open>len\<close>. The result is the clamped \<open>bankLength\<close> and the
  list.
\<close>

definition read_bank :: "u8 list \<Rightarrow> u8 \<Rightarrow> u8 \<Rightarrow> TMR_uint8List \<Rightarrow> (u8 \<times> TMR_uint8List) option" where
  "read_bank m i bankLength blk = do {
     let bankLength = (if uint (max8 blk) < uint bankLength then ucast (max8 blk) else bankLength);
     lst \<leftarrow> copy_bank m (24 + uint i) (list8 blk) 0 (unat bankLength);
     Some (bankLength, blk\<lparr>list8 := lst, len8 := ucast bankLength\<rparr>)
   }"

text \<open>
  One pass through the body of the loop over the banks, from index \<open>i\<close>: the result is
  the code of the \<open>return\<close> for a bank type the code does not know, or the next \<open>i\<close> and
  the updated \<open>read\<close>. The bank data starts at \<open>offset = 24\<close>; \<open>bankLength\<close> is a \<open>uint8_t\<close>.
\<close>

definition bank_block :: "u8 list \<Rightarrow> u8 \<Rightarrow> TMR_TagReadData \<Rightarrow> (u8 + u8 \<times> TMR_TagReadData) option" where
  "bank_block m i read = do {
     h \<leftarrow> rd m (24 + uint i);
     let bank = drop_bit 4 h AND 0xf;
     let i = i + 1;
     w \<leftarrow> rd m (24 + uint i);
     let bankLength = w * 2;
     let i = i + 1;
     if bank = TMR_GEN2_BANK_USER then do {
       (bankLength, blk) \<leftarrow> read_bank m i bankLength (userMemData read);
       Some (Inr (i + bankLength, read\<lparr>userMemData := blk\<rparr>))
     }
     else if bank = TMR_GEN2_BANK_TID then do {
       (bankLength, blk) \<leftarrow> read_bank m i bankLength (tidMemData read);
       Some (Inr (i + bankLength, read\<lparr>tidMemData := blk\<rparr>))
     }
     else if bank = TMR_GEN2_BANK_RESERVED then do {
       (bankLength, blk) \<leftarrow> read_bank m i bankLength (reservedMemData read);
       Some (Inr (i + bankLength, read\<lparr>reservedMemData := blk\<rparr>))
     }
     else if bank = TMR_GEN2_BANK_EPC then do {
       let blk = epcMemData read;
       let bankLength = (if uint (max8 blk) < uint bankLength then ucast (max8 blk) else bankLength);
       (lst, epc') \<leftarrow> copy_epc m (24 + uint i) (list8 blk) (epc read) 0 (unat bankLength);
       Some (Inr (i + bankLength,
                  read\<lparr>epcMemData := blk\<lparr>list8 := lst, len8 := ucast bankLength\<rparr>,
                       epc := epc', epclen := bankLength - 4\<rparr>))
     }
     else Some (Inl RESPONSE_FAIL)
   }"

text \<open>
  \<^verbatim>\<open>for (uint8_t i = 0; i < datalength;)\<close>. The results are the return code and \<open>read\<close>.
  With a \<open>datalength\<close> beyond 255 the counter \<open>i\<close> can never reach it.
\<close>

partial_function (option) banks_loop ::
  "u8 list \<Rightarrow> u16 \<Rightarrow> u8 \<Rightarrow> TMR_TagReadData \<Rightarrow> (u8 \<times> TMR_TagReadData) option" where
  "banks_loop m datalength i read =
     (if uint i < uint datalength then do {
        res \<leftarrow> bank_block m i read;
        (case res of
           Inl code \<Rightarrow> Some (code, read)
         | Inr (i', read') \<Rightarrow> banks_loop m datalength i' read')
      }
      else Some (ALL_GOOD, read))"

text \<open>
  The part of \<open>ReadingAllBanks\<close> that decodes the tag buffer in \<open>msg\<close>: RSSI, frequency,
  timestamp, and the banks. \<^verbatim>\<open>read->rssi = msg[10] - 256;\<close> stores an \<open>int\<close> into an
  \<open>int32_t\<close>.
\<close>

definition parse_tag_buffer :: "u8 list \<Rightarrow> TMR_TagReadData \<Rightarrow> (u8 \<times> TMR_TagReadData) option" where
  "parse_tag_buffer m read = do {
     b10 \<leftarrow> rd m 10;
     let read = read\<lparr>rssi := word_of_int (uint b10 - 256)\<rparr>;
     f0 \<leftarrow> rd m 12;
     f1 \<leftarrow> rd m 13;
     f2 \<leftarrow> rd m 14;
     let read = read\<lparr>frequency := push_bit 16 (ucast f0) OR push_bit 8 (ucast f1) OR ucast f2\<rparr>;
     t0 \<leftarrow> rd m 15;
     t1 \<leftarrow> rd m 16;
     t2 \<leftarrow> rd m 17;
     t3 \<leftarrow> rd m 18;
     let read = read\<lparr>timestamp :=
       push_bit 24 (ucast t0) OR push_bit 16 (ucast t1) OR push_bit 8 (ucast t2) OR ucast t3\<rparr>;
     d0 \<leftarrow> rd m 22;
     d1 \<leftarrow> rd m 23;
     let datalength = (ucast ((push_bit 8 (ucast d0 :: u32) OR ucast d1) div 8) :: u16);
     banks_loop m datalength 0 read
   }"

text \<open>The request for all banks.\<close>

definition allbanks_configBlob :: "u8 list" where
  "allbanks_configBlob =
     [0x88, 0x10, 0x00, 0x17, 0x01, 0xf4, 0x0f, 0xff, 0x01, 0x09, 0x28, 0x07, 0xd0, 0x00, 0x3f,
      0x00, 0x00, 0x00, 0x00, 0x00]"

text \<open>
  \<open>ReadingAllBanks\<close>: the read filter is switched off and the tag buffer of the module
  cleared (the answers to these two commands are not looked at), the inventory with the
  embedded read of all banks is run, and the tag buffer is fetched and decoded. The
  results are the reader, the return code and \<open>read\<close>.
\<close>

definition ReadingAllBanks :: "RFID \<Rightarrow> TMR_TagReadData \<Rightarrow> (RFID \<times> u8 \<times> TMR_TagReadData) option" where
  "ReadingAllBanks r read = do {
     ra \<leftarrow> disableReadFilter r;
     rb \<leftarrow> sendMessage ra TMR_SR_OPCODE_CLEAR_TAG_ID_BUFFER [] 0 COMMAND_TIME_OUT True;
     r1 \<leftarrow> sendMessage rb TMR_SR_OPCODE_READ_TAG_ID_MULTIPLE allbanks_configBlob 20
             COMMAND_TIME_OUT True;
     st \<leftarrow> rd (msg_arr r1) 0;
     if st \<noteq> ALL_GOOD then Some (r1, RESPONSE_FAIL, read)
     else do {
       c0 \<leftarrow> rd (msg_arr r1) 11;
       c1 \<leftarrow> rd (msg_arr r1) 12;
       s0 \<leftarrow> rd (msg_arr r1) 15;
       s1 \<leftarrow> rd (msg_arr r1) 16;
       e0 \<leftarrow> rd (msg_arr r1) 17;
       e1 \<leftarrow> rd (msg_arr r1) 18;
       let read = read\<lparr>TagCount := push_bit 8 (ucast c0) OR ucast c1,
                       succesCount := push_bit 8 (ucast s0) OR ucast s1,
                       failureCount := push_bit 8 (ucast e0) OR ucast e1\<rparr>;
       if succesCount read = 0 then Some (r1, RESPONSE_IS_NOTAGFOUND, read)
       else do {
         r2 \<leftarrow> sendMessage r1 TMR_SR_OPCODE_GET_TAG_ID_BUFFER [0x0f, 0xff, 0x00] 3
                 COMMAND_TIME_OUT True;
         st \<leftarrow> rd (msg_arr r2) 0;
         if st \<noteq> ALL_GOOD then Some (r2, RESPONSE_FAIL, read)
         else do {
           (code, read') \<leftarrow> parse_tag_buffer (msg_arr r2) read;
           Some (r2, code, read')
         }
       }
     }
   }"

text \<open>The list of \<open>read\<close> that belongs to a bank type.\<close>

definition bank_list :: "u8 \<Rightarrow> TMR_TagReadData \<Rightarrow> TMR_uint8List" where
  "bank_list bank read =
     (if bank = TMR_GEN2_BANK_USER then userMemData read
      else if bank = TMR_GEN2_BANK_TID then tidMemData read
      else if bank = TMR_GEN2_BANK_RESERVED then reservedMemData read
      else epcMemData read)"

text \<open>
  One pass of the loop in words of its own. The block at \<open>i\<close> has its type in the high
  nibble of the byte at \<open>24 + i\<close> and its length in words in the byte at \<open>25 + i\<close>; the
  code takes twice that byte, as a \<open>uint8_t\<close>, for the length in bytes. \<open>clamped_length\<close> is
  that length cut down to the \<open>max\<close> of the destination list; \<open>filled_list\<close> is the list
  with that many bytes of the block at its front and \<open>len\<close> set to their number;
  \<open>block_stored\<close> is \<open>read\<close> with the list of the block's bank filled, and for the EPC bank
  with \<open>epc\<close> and \<open>epclen\<close> set from the bytes behind CRC and PC word.
\<close>

definition block_type :: "u8 list \<Rightarrow> u8 \<Rightarrow> u8" where
  "block_type m i = drop_bit 4 (m ! (24 + unat i)) AND 0xf"

definition clamped_length :: "u8 list \<Rightarrow> u8 \<Rightarrow> TMR_TagReadData \<Rightarrow> nat" where
  "clamped_length m i read =
     min (unat (m ! (25 + unat i) * 2)) (unat (max8 (bank_list (block_type m i) read)))"

definition filled_list :: "u8 list \<Rightarrow> u8 \<Rightarrow> nat \<Rightarrow> TMR_uint8List \<Rightarrow> TMR_uint8List" where
  "filled_list m i n blk =
     blk\<lparr>list8 := take n (drop (26 + unat i) m) @ drop n (list8 blk), len8 := of_nat n\<rparr>"

definition block_stored :: "u8 list \<Rightarrow> u8 \<Rightarrow> TMR_TagReadData \<Rightarrow> TMR_TagReadData" where
  "block_stored m i read =
     (let bank = block_type m i; n = clamped_length m i read
      in if bank = TMR_GEN2_BANK_USER then read\<lparr>userMemData := filled_list m i n (userMemData read)\<rparr>
         else if bank = TMR_GEN2_BANK_TID then read\<lparr>tidMemData := filled_list m i n (tidMemData read)\<rparr>
         else if bank = TMR_GEN2_BANK_RESERVED then
           read\<lparr>reservedMemData := filled_list m i n (reservedMemData read)\<rparr>
         else read\<lparr>epcMemData := filled_list m i n (epcMemData read),
                   epc := take (min (n - 4) TMR_MAX_EPC_BYTE_COUNT) (drop (30 + unat i) m) @
                          drop (min (n - 4) TMR_MAX_EPC_BYTE_COUNT) (epc read),
                   epclen := of_nat n - 4\<rparr>)"

text \<open>
  A destination with room for three bytes in every list and 32 bytes for the EPC, and
  an array whose RSSI byte at index 10 is \<open>0x64\<close> and which declares no bank data.
\<close>

definition small_list :: TMR_uint8List where
  "small_list = \<lparr>list8 = [0, 0, 0], max8 = 3, len8 = 0\<rparr>"

definition small_read :: TMR_TagReadData where
  "small_read =
     \<lparr>epc = replicate 32 0, epclen = 0, TagCount = 0, succesCount = 0, failureCount = 0,
      rssi = 0, frequency = 0, timestamp = 0, epcMemData = small_list, tidMemData = small_list,
      userMemData = small_list, reservedMemData = small_list\<rparr>"

definition rssi_sample :: "u8 list" where
  "rssi_sample =
     [0xFF, 0x13, 0x29, 0x00, 0x00, 0x0F, 0xFF, 0x00, 0x01, 0x01, 0x64, 0x11,
      0x0E, 0x0E, 0x70, 0x00, 0x00, 0x00, 0x39, 0x00, 0xAE, 0x05, 0x00, 0x00]"

text \<open>
  A destination whose four lists have room for \<open>cap\<close> bytes each, all entries zero.
\<close>

definition room_list :: "nat \<Rightarrow> TMR_uint8List" where
  "room_list cap = \<lparr>list8 = replicate cap 0, max8 = of_nat cap, len8 = 0\<rparr>"

definition room_read :: "nat \<Rightarrow> TMR_TagReadData" where
  "room_read cap =
     \<lparr>epc = replicate 32 0, epclen = 0, TagCount = 0, succesCount = 0, failureCount = 0,
      rssi = 0, frequency = 0, timestamp = 0, epcMemData = room_list cap,
      tidMemData = room_list cap, userMemData = room_list cap, reservedMemData = room_list cap\<rparr>"

text \<open>
  The answers of a module to the four commands of \<open>ReadingAllBanks\<close>, each with its CRC:
  to the two commands that prepare it; to the inventory, with one tag and one successful
  embedded read; and to the request for the tag buffer. The tag buffer follows the
  response that the comment in \<open>ReadingAllBanks\<close> gives: one entry, RSSI \<open>E9\<close>, \<open>0x00C0\<close> bits
  (24 bytes) of bank data from index 24, then GPIO status, EPC length, PC word, EPC and
  EPC CRC. The bank data holds two blocks: the EPC bank of that comment (type 1, 8 words:
  \<open>78 DE 30 00 E2 00 00 15 86 0E 02 68 15 50 7D BB\<close>) from index 24, and a user bank
  (type 3, 2 words: \<open>AA BB CC DD\<close>) from index 42.
\<close>

definition filter_reply :: "u8 list" where
  "filter_reply = [0xFF, 0x00, 0x9A, 0x00, 0x00, 0xA6, 0x33]"

definition clear_reply :: "u8 list" where
  "clear_reply = [0xFF, 0x00, 0x2A, 0x00, 0x00, 0x01, 0xE8]"

definition inventory_reply :: "u8 list" where
  "inventory_reply =
     [0xFF, 0x0E, 0x22, 0x00, 0x00, 0x88, 0x00, 0x00, 0x17, 0x00, 0x00, 0x00, 0x01, 0x01, 0x28,
      0x00, 0x01, 0x00, 0x00, 0xF4, 0xA7]"

definition tag_buffer_reply :: "u8 list" where
  "tag_buffer_reply =
     [0xFF, 0x41, 0x29, 0x00, 0x00, 0x0F, 0xFF, 0x00, 0x01, 0x01, 0xE9, 0x11,
      0x0E, 0x0E, 0x70, 0x00, 0x00, 0x00, 0x39, 0x00, 0xAE, 0x05, 0x00, 0xC0,
      0x10, 0x08, 0x78, 0xDE, 0x30, 0x00, 0xE2, 0x00, 0x00, 0x15, 0x86, 0x0E,
      0x02, 0x68, 0x15, 0x50, 0x7D, 0xBB, 0x30, 0x02, 0xAA, 0xBB, 0xCC, 0xDD,
      0x80, 0x02, 0x00, 0x00, 0x00, 0x80, 0x30, 0x00, 0xE2, 0x00, 0x00, 0x15,
      0x86, 0x0E, 0x02, 0x68, 0x15, 0x50, 0x7D, 0xBB, 0x78, 0xDE, 0xDF, 0xEC]"
section \<open>The CRC is the nibble-wise algorithm\<close>

lemma crc_assign_eq:
  "crc_assign crc nib = (push_bit 4 crc OR ucast nib) XOR crctable ! unat (drop_bit 12 crc)"
  unfolding crc_assign_def
  by (rule bit_word_eqI) (auto simp add: bit_simps)

lemma hi_nibble: "(ucast (drop_bit 4 (b :: u8)) :: u16) = of_nat (unat b div 16)"
proof -
  have "unat b div 16 = drop_bit 4 (unat b)"
    by (simp add: drop_bit_eq_div)
  then show ?thesis
    by (simp add: unat_drop_bit_eq [symmetric])
qed

lemma lo_nibble: "(ucast ((b :: u8) AND 0x0F) :: u16) = of_nat (unat b mod 16)"
proof -
  have "unat b mod 16 = take_bit 4 (unat b)"
    by (simp add: take_bit_eq_mod)
  moreover have "b AND 0x0F = take_bit 4 b"
    using take_bit_eq_mask [of 4 b] by (simp add: mask_eq_exp_minus_1)
  ultimately show ?thesis
    by (simp add: unsigned_take_bit_eq [symmetric])
qed

lemma crc_body_eq:
  "crc_assign (crc_assign crc (drop_bit 4 b)) (b AND 0x0F) = foldl crc16_step crc (nibbles b)"
  by (simp add: crc_assign_eq crc16_step_def nibbles_def hi_nibble lo_nibble)

lemma crc_loop_in_range:
  "unat len \<le> length u8Buf \<Longrightarrow> i \<le> unat len \<Longrightarrow>
   crc_loop u8Buf len i crc =
     Some (foldl crc16_step crc (concat (map nibbles (take (unat len - i) (drop i u8Buf)))))"
proof (induction u8Buf len i crc rule: crc_loop.induct)
  case (1 u8Buf len i crc)
  show ?case
  proof (cases "i < unat len")
    case True
    then have lt: "i < length u8Buf"
      using "1.prems" by simp
    then have r: "rd u8Buf (int i) = Some (u8Buf ! i)"
      by (simp add: rd_def)
    have d: "take (unat len - i) (drop i u8Buf) =
               u8Buf ! i # take (unat len - Suc i) (drop (Suc i) u8Buf)"
      using True lt by (metis Cons_nth_drop_Suc Suc_diff_Suc take_Suc_Cons)
    have "crc_loop u8Buf len i crc =
          crc_loop u8Buf len (Suc i)
            (crc_assign (crc_assign crc (drop_bit 4 (u8Buf ! i))) (u8Buf ! i AND 0x0F))"
      using True r by (subst crc_loop.simps) simp
    also have "\<dots> = Some (foldl crc16_step (foldl crc16_step crc (nibbles (u8Buf ! i)))
                 (concat (map nibbles (take (unat len - Suc i) (drop (Suc i) u8Buf)))))"
      using "1.IH" [OF True r] "1.prems" True by (simp add: crc_body_eq)
    finally show ?thesis
      by (simp add: d)
  next
    case False
    then show ?thesis
      using "1.prems" by (subst crc_loop.simps) simp
  qed
qed

lemma crc_loop_out_of_range:
  "length u8Buf < unat len \<Longrightarrow> i \<le> length u8Buf \<Longrightarrow> crc_loop u8Buf len i crc = None"
proof (induction u8Buf len i crc rule: crc_loop.induct)
  case (1 u8Buf len i crc)
  show ?case
  proof (cases "i < length u8Buf")
    case True
    then have r: "rd u8Buf (int i) = Some (u8Buf ! i)"
      by (simp add: rd_def)
    from True "1.prems" have lt: "i < unat len"
      by simp
    show ?thesis
      using "1.IH" [OF lt r] "1.prems" True lt r by (subst crc_loop.simps) simp
  next
    case False
    then have "rd u8Buf (int i) = None"
      by (simp add: rd_def)
    then show ?thesis
      using "1.prems" False by (subst crc_loop.simps) simp
  qed
qed

lemma calculateCRC_crc16:
  "calculateCRC u8Buf len =
     (if unat len \<le> length u8Buf then Some (crc16 (take (unat len) u8Buf)) else None)"
  by (simp add: calculateCRC_def crc16_def crc_loop_in_range crc_loop_out_of_range)

text \<open>
  Claim C1. For every buffer and every length, \<open>calculateCRC\<close> over the first \<open>len\<close>
  bytes is the value of the nibble-wise algorithm of the specification on those bytes
  (seed \<open>0xFFFF\<close>, high nibble before low nibble, the sixteen-entry table indexed by the
  top nibble of the running value), bit for bit. The result is a function of the bytes
  alone, so it is deterministic. A length beyond the buffer reads outside it and has
  no defined result.
\<close>

theorem calculateCRC_nibblewise:
  "calculateCRC u8Buf len =
     (if unat len \<le> length u8Buf then Some (crc16 (take (unat len) u8Buf)) else None)"
proof (cases "unat len \<le> length u8Buf")
  case True
  then have "crc_loop u8Buf len 0 0xFFFF =
      Some (foldl crc16_step 0xFFFF (concat (map nibbles (take (unat len - 0) (drop 0 u8Buf)))))"
    by (intro crc_loop_in_range) simp_all
  with True show ?thesis
    by (simp add: calculateCRC_def crc16_def)
next
  case False
  then have "crc_loop u8Buf len 0 0xFFFF = None"
    by (intro crc_loop_out_of_range) simp_all
  with False show ?thesis
    by (simp add: calculateCRC_def)
qed

theorem calculateCRC_nibblewise_witness:
  "calculateCRC [0x00, 0x03, 0x1D] 2 = Some (crc16 [0x00, 0x03]) \<and> crc16 [0x00, 0x03] = 0x1D0C"
  using calculateCRC_nibblewise [of "[0x00, 0x03, 0x1D]" 2]
  by (simp add: crc16_def crc16_step_def nibbles_def crctable_def)

section \<open>Frames lying in the array\<close>

lemma uint_u8_u16: "uint (b :: u8) = uint (c :: u16) \<longleftrightarrow> (ucast b :: u16) = c"
  by (simp add: word_uint_eq_iff uint_up_ucast is_up)

lemma split_u16: "(c :: u16) = push_bit 8 (drop_bit 8 c) OR (c AND 0xFF)"
proof -
  have m: "(0xFF :: u16) = mask 8"
    by (simp add: mask_eq_exp_minus_1)
  show ?thesis
    unfolding m take_bit_eq_mask [symmetric]
    by (rule bit_word_eqI) (auto simp add: bit_simps)
qed

text \<open>Comparing the two trailing bytes one by one is comparing the 16-bit value.\<close>

lemma crc_bytes_eq:
  fixes c :: u16 and hi lo :: u8
  shows "(uint hi = uint (drop_bit 8 c) \<and> uint lo = uint (c AND 0xFF))
     \<longleftrightarrow> c = push_bit 8 (ucast hi) OR ucast lo"
proof
  assume "uint hi = uint (drop_bit 8 c) \<and> uint lo = uint (c AND 0xFF)"
  then have h: "(ucast hi :: u16) = drop_bit 8 c" and l: "(ucast lo :: u16) = c AND 0xFF"
    by (simp_all add: uint_u8_u16)
  show "c = push_bit 8 (ucast hi) OR ucast lo"
    using split_u16 [of c] by (simp add: h l)
next
  assume c: "c = push_bit 8 (ucast hi) OR ucast lo"
  have m: "(0xFF :: u16) = mask 8"
    by (simp add: mask_eq_exp_minus_1)
  have "drop_bit 8 c = ucast hi"
    unfolding c by (rule bit_word_eqI) (auto simp add: bit_simps dest: bit_imp_le_length)
  moreover have "c AND 0xFF = ucast lo"
    unfolding c m take_bit_eq_mask [symmetric]
    by (rule bit_word_eqI) (auto simp add: bit_simps dest: bit_imp_le_length)
  ultimately show "uint hi = uint (drop_bit 8 c) \<and> uint lo = uint (c AND 0xFF)"
    by (simp add: uint_u8_u16)
qed

lemma frame_le: "take (length f) m = f \<Longrightarrow> length f \<le> length m"
  by (drule arg_cong [where f = length]) simp

lemma frame_rd:
  "take (length f) m = f \<Longrightarrow> k < length f \<Longrightarrow> rd m (int k) = Some (f ! k)"
  using frame_le [of f m] by (auto simp add: rd_def) (metis nth_take)

lemma frame_msg_arr:
  "take (length f) (msg r) = f \<Longrightarrow> length f \<le> MAX_MSG_SIZE \<Longrightarrow>
   take (length f) (msg_arr r) = f"
  by (simp add: msg_arr_def min_def)

lemma u8_total:
  fixes len :: u8
  assumes "unat len + 7 < 256"
  shows "unat (len + 7) = unat len + 7"
    and "unat (len + 7 - 3) = unat len + 4"
    and "uint (len + 7) - 2 = int (unat len + 5)"
    and "uint (len + 7) - 1 = int (unat len + 6)"
proof -
  show a: "unat (len + 7) = unat len + 7"
    using assms by (simp add: unat_add_lem [THEN iffD1])
  have "len + 7 - 3 = len + 4"
    by simp
  then show "unat (len + 7 - 3) = unat len + 4"
    using assms by (simp add: unat_add_lem [THEN iffD1])
  have "uint (len + 7) = int (unat len + 7)"
    using a by (metis uint_nat)
  then show "uint (len + 7) - 2 = int (unat len + 5)" "uint (len + 7) - 1 = int (unat len + 6)"
    by simp_all
qed

lemma frame_calculateCRC:
  assumes "complete_frame f" "length f < 256" "take (length f) m = f"
  shows "calculateCRC (drop 1 m) (f ! 1 + 7 - 3) = Some (frame_crc f)"
proof -
  have n: "length f = unat (f ! 1) + 7"
    using assms(1) by (simp add: complete_frame_def)
  then have u: "unat (f ! 1 + 7 - 3) = length f - 3"
    using u8_total(2) [of "f ! 1"] assms(2) by simp
  have le: "length f \<le> length m"
    using assms(3) by (rule frame_le)
  have "take (length f - 3) (drop 1 m) = take (length f - 3) (drop 1 (take (length f) m))"
    by (simp add: drop_take min_def)
  then have "take (length f - 3) (drop 1 m) = take (length f - 3) (drop 1 f)"
    using assms(3) by simp
  then have t: "take (unat (f ! 1 + 7 - 3)) (drop 1 m) = take (length f - 3) (drop 1 f)"
    by (simp only: u)
  have "unat (f ! 1 + 7 - 3) \<le> length (drop 1 m)"
    using le n by (simp only: u) simp
  then show ?thesis
    by (simp only: calculateCRC_crc16 t frame_crc_def if_True)
qed

lemma frame_trailing_rd:
  assumes "complete_frame f" "length f < 256" "take (length f) m = f"
  shows "rd m (uint (f ! 1 + 7) - 2) = Some (f ! (length f - 2))"
    and "rd m (uint (f ! 1 + 7) - 1) = Some (f ! (length f - 1))"
proof -
  have n: "length f = unat (f ! 1) + 7"
    using assms(1) by (simp add: complete_frame_def)
  have "uint (f ! 1 + 7) - 2 = int (length f - 2)" "uint (f ! 1 + 7) - 1 = int (length f - 1)"
    using u8_total(3,4) [of "f ! 1"] assms(2) n by simp_all
  then show "rd m (uint (f ! 1 + 7) - 2) = Some (f ! (length f - 2))"
    and "rd m (uint (f ! 1 + 7) - 1) = Some (f ! (length f - 1))"
    using frame_rd [OF assms(3), of "length f - 2"] frame_rd [OF assms(3), of "length f - 1"] n
    by simp_all
qed

lemma crc_valid_bytes:
  "crc_valid f \<longleftrightarrow>
     uint (f ! (length f - 2)) = uint (drop_bit 8 (frame_crc f)) \<and>
     uint (f ! (length f - 1)) = uint (frame_crc f AND 0xFF)"
  by (simp only: crc_bytes_eq crc_valid_def trailing_crc_def)

lemma reader_holding_frame:
  "length f \<le> MAX_MSG_SIZE \<Longrightarrow> take (length f) (msg (reader_holding f)) = f"
  by (simp add: reader_holding_def)

section \<open>The classifier\<close>

lemma status_assemble:
  "(ucast (push_bit 8 (ucast (a :: u8) :: u32)) :: u16) = push_bit 8 (ucast a)"
  "(ucast (ucast (b :: u8) :: u32) :: u16) = ucast b"
  by (rule bit_word_eqI; auto simp add: bit_simps dest: bit_imp_le_length)+

text \<open>What \<open>parseResponse\<close> returns for a complete frame at the start of \<open>msg\<close>.\<close>

lemma parseResponse_frame:
  assumes "complete_frame f" "length f \<le> MAX_MSG_SIZE" "take (length f) (msg r) = f"
  shows "parseResponse r =
     (if \<not> crc_valid f then Some ERROR_CORRUPT_RESPONSE
      else if f ! 2 = TMR_SR_OPCODE_READ_TAG_ID_MULTIPLE then
        (if f ! 1 = 0x00 then
           (if status_word f = 0x0400 then Some RESPONSE_IS_KEEPALIVE
            else if status_word f = 0x0504 then Some RESPONSE_IS_TEMPTHROTTLE
            else Some ERROR_UNKNOWN_OPCODE)
         else if f ! 1 = 0x08 then Some RESPONSE_IS_UNKNOWN
         else if f ! 1 = 0x0E then Some ERROR_UNKNOWN_OPCODE
         else if f ! 1 = 0x0A then Some RESPONSE_IS_TEMPERATURE
         else Some RESPONSE_IS_TAGFOUND)
      else Some ERROR_UNKNOWN_OPCODE)"
proof -
  have a: "take (length f) (msg_arr r) = f"
    using assms(2,3) by (rule frame_msg_arr [rotated])
  have lt: "length f < 256"
    using assms(2) by (simp add: MAX_MSG_SIZE_def)
  have n: "length f = unat (f ! 1) + 7"
    using assms(1) by (simp add: complete_frame_def)
  have r1: "rd (msg_arr r) 1 = Some (f ! 1)" and r2: "rd (msg_arr r) 2 = Some (f ! 2)"
    and r3: "rd (msg_arr r) 3 = Some (f ! 3)" and r4: "rd (msg_arr r) 4 = Some (f ! 4)"
    using frame_rd [OF a, of 1] frame_rd [OF a, of 2] frame_rd [OF a, of 3] frame_rd [OF a, of 4] n
    by simp_all
  note c = frame_calculateCRC [OF assms(1) lt a]
  note t = frame_trailing_rd [OF assms(1) lt a]
  show ?thesis
    unfolding parseResponse_def Let_def
    apply (simp only: r1 r2 r3 r4 c t Option.bind.simps)
    apply (simp add: crc_valid_bytes status_word_def status_assemble)
    done
qed

lemmas crc_eval =
  crc_valid_def frame_crc_def trailing_crc_def crc16_def crc16_step_def nibbles_def crctable_def

lemmas codes =
  ALL_GOOD_def ERROR_COMMAND_RESPONSE_TIMEOUT_def ERROR_CORRUPT_RESPONSE_def
  ERROR_WRONG_OPCODE_RESPONSE_def ERROR_UNKNOWN_OPCODE_def RESPONSE_IS_TEMPERATURE_def
  RESPONSE_IS_KEEPALIVE_def RESPONSE_IS_TEMPTHROTTLE_def RESPONSE_IS_TAGFOUND_def
  RESPONSE_IS_NOTAGFOUND_def RESPONSE_IS_UNKNOWN_def RESPONSE_SUCCESS_def RESPONSE_FAIL_def
  ERROR_INVALID_EPC_REQ_def ERROR_INVALID_REQ_def

lemma crc_valid_keepalive14: "crc_valid keepalive14_frame"
  by (simp add: crc_eval keepalive14_frame_def)

lemma crc_valid_other14: "crc_valid other14_frame"
  by (simp add: crc_eval other14_frame_def)

lemma crc_valid_status0: "crc_valid status0_frame"
  by (simp add: crc_eval status0_frame_def)

lemma crc_valid_unknown8: "crc_valid unknown8_frame"
  by (simp add: crc_eval unknown8_frame_def)

text \<open>
  Claim C4. The claim says that a frame of length 14 (\<open>0x0E\<close>) with status word \<open>0x0400\<close>
  is a keep-alive. The code does not do that: for every complete frame of opcode \<open>0x22\<close>
  and length \<open>0x0E\<close> with a right CRC, whatever its status word, \<open>parseResponse\<close>
  returns \<open>ERROR_UNKNOWN_OPCODE\<close>. The branch tests \<open>statusMsg\<close>, which is still 0 there.
\<close>

theorem parseResponse_length14:
  assumes "complete_frame f" and "length f \<le> MAX_MSG_SIZE" and "take (length f) (msg r) = f"
    and "crc_valid f" and "f ! 2 = TMR_SR_OPCODE_READ_TAG_ID_MULTIPLE" and "f ! 1 = 0x0E"
  shows "parseResponse r = Some ERROR_UNKNOWN_OPCODE"
  using assms(4-6) by (simp add: parseResponse_frame [OF assms(1-3)])

theorem parseResponse_length14_witness:
  "status_word keepalive14_frame = 0x0400 \<and>
   parseResponse (reader_holding keepalive14_frame) = Some ERROR_UNKNOWN_OPCODE"
proof -
  have "complete_frame keepalive14_frame"
    by (simp add: complete_frame_def keepalive14_frame_def)
  moreover have "length keepalive14_frame \<le> MAX_MSG_SIZE"
    by (simp add: keepalive14_frame_def MAX_MSG_SIZE_def)
  moreover have "keepalive14_frame ! 2 = TMR_SR_OPCODE_READ_TAG_ID_MULTIPLE"
    and "keepalive14_frame ! 1 = 0x0E"
    by (simp_all add: keepalive14_frame_def TMR_SR_OPCODE_READ_TAG_ID_MULTIPLE_def)
  moreover have "status_word keepalive14_frame = 0x0400"
    by (simp add: status_word_def keepalive14_frame_def)
  ultimately show ?thesis
    using parseResponse_length14 [of keepalive14_frame "reader_holding keepalive14_frame"]
      crc_valid_keepalive14 reader_holding_frame [of keepalive14_frame]
    by simp
qed

text \<open>
  Claim C5, as stated, fails. A frame of length 0 with the status word \<open>0x0000\<close> is no
  keep-alive and no temperature throttle, so it matches none of the documented
  combinations; \<open>parseResponse\<close> does not classify it as \<open>RESPONSE_IS_UNKNOWN\<close> but lets it
  fall through to the last line of the function, \<open>ERROR_UNKNOWN_OPCODE\<close>.
\<close>

theorem parseResponse_status0_counterexample:
  "unrecognised status0_frame \<and>
   parseResponse (reader_holding status0_frame) = Some ERROR_UNKNOWN_OPCODE \<and>
   ERROR_UNKNOWN_OPCODE \<noteq> RESPONSE_IS_UNKNOWN"
proof -
  have "complete_frame status0_frame" "length status0_frame \<le> MAX_MSG_SIZE"
    by (simp_all add: complete_frame_def status0_frame_def MAX_MSG_SIZE_def)
  then have "parseResponse (reader_holding status0_frame) = Some ERROR_UNKNOWN_OPCODE"
    using crc_valid_status0
    by (simp add: parseResponse_frame [of status0_frame] reader_holding_frame)
      (simp add: status0_frame_def status_word_def TMR_SR_OPCODE_READ_TAG_ID_MULTIPLE_def)
  moreover have "unrecognised status0_frame"
    by (simp add: unrecognised_def status_word_def status0_frame_def)
  ultimately show ?thesis
    by (simp add: codes)
qed

text \<open>
  Claim C5, amended. For a complete frame of opcode \<open>0x22\<close> with a right CRC: a frame
  that matches none of the documented combinations (length 0 with a status word other
  than \<open>0x0400\<close> and \<open>0x0504\<close>, length 14 with a status word other than \<open>0x0400\<close>) gets the
  code \<open>ERROR_UNKNOWN_OPCODE\<close>; no frame of length 0, 8, 14 or 10 is classified as
  \<open>RESPONSE_IS_TAGFOUND\<close>; and \<open>RESPONSE_IS_UNKNOWN\<close> is the answer for the frames of length 8
  and for no others.
\<close>

theorem parseResponse_unrecognised:
  assumes "complete_frame f" and "length f \<le> MAX_MSG_SIZE" and "take (length f) (msg r) = f"
    and "crc_valid f" and "f ! 2 = TMR_SR_OPCODE_READ_TAG_ID_MULTIPLE"
  shows "(unrecognised f \<longrightarrow> parseResponse r = Some ERROR_UNKNOWN_OPCODE) \<and>
         (f ! 1 \<in> {0x00, 0x08, 0x0E, 0x0A} \<longrightarrow> parseResponse r \<noteq> Some RESPONSE_IS_TAGFOUND) \<and>
         (parseResponse r = Some RESPONSE_IS_UNKNOWN \<longleftrightarrow> f ! 1 = 0x08)"
  using assms(4,5)
  by (auto simp add: parseResponse_frame [OF assms(1-3)] codes unrecognised_def)

theorem parseResponse_unrecognised_witness:
  "parseResponse (reader_holding other14_frame) = Some ERROR_UNKNOWN_OPCODE \<and>
   parseResponse (reader_holding keepalive14_frame) \<noteq> Some RESPONSE_IS_TAGFOUND \<and>
   parseResponse (reader_holding unknown8_frame) = Some RESPONSE_IS_UNKNOWN"
proof -
  have "complete_frame other14_frame" "length other14_frame \<le> MAX_MSG_SIZE"
    and "other14_frame ! 2 = TMR_SR_OPCODE_READ_TAG_ID_MULTIPLE" "unrecognised other14_frame"
    by (simp_all add: complete_frame_def other14_frame_def MAX_MSG_SIZE_def
        TMR_SR_OPCODE_READ_TAG_ID_MULTIPLE_def unrecognised_def status_word_def)
  then have "parseResponse (reader_holding other14_frame) = Some ERROR_UNKNOWN_OPCODE"
    using parseResponse_unrecognised [of other14_frame "reader_holding other14_frame"]
      crc_valid_other14 reader_holding_frame [of other14_frame]
    by simp
  moreover have "complete_frame keepalive14_frame" "length keepalive14_frame \<le> MAX_MSG_SIZE"
    and "keepalive14_frame ! 2 = TMR_SR_OPCODE_READ_TAG_ID_MULTIPLE"
    and "keepalive14_frame ! 1 \<in> {0x00, 0x08, 0x0E, 0x0A}"
    by (simp_all add: complete_frame_def keepalive14_frame_def MAX_MSG_SIZE_def
        TMR_SR_OPCODE_READ_TAG_ID_MULTIPLE_def)
  then have "parseResponse (reader_holding keepalive14_frame) \<noteq> Some RESPONSE_IS_TAGFOUND"
    using parseResponse_unrecognised [of keepalive14_frame "reader_holding keepalive14_frame"]
      crc_valid_keepalive14 reader_holding_frame [of keepalive14_frame]
    by simp
  moreover have "complete_frame unknown8_frame" "length unknown8_frame \<le> MAX_MSG_SIZE"
    and "unknown8_frame ! 2 = TMR_SR_OPCODE_READ_TAG_ID_MULTIPLE" "unknown8_frame ! 1 = 0x08"
    by (simp_all add: complete_frame_def unknown8_frame_def MAX_MSG_SIZE_def
        TMR_SR_OPCODE_READ_TAG_ID_MULTIPLE_def)
  then have "parseResponse (reader_holding unknown8_frame) = Some RESPONSE_IS_UNKNOWN"
    using parseResponse_unrecognised [of unknown8_frame "reader_holding unknown8_frame"]
      crc_valid_unknown8 reader_holding_frame [of unknown8_frame]
    by simp
  ultimately show ?thesis
    by simp
qed

section \<open>The temperature query in continuous mode\<close>

text \<open>
  Claim C10. While continuous mode is active \<open>getTemp\<close> returns without touching the
  reader: the serial stream (bytes written, bytes waiting, the module's answers) and
  \<open>msg\<close> are as before. The value is the cached \<open>_contTemp\<close> when that is strictly
  positive, and \<open>-1\<close>, the error value, when it is zero or negative.
\<close>

theorem getTemp_continuous:
  assumes "continuousModeTemp r"
  shows "getTemp r = Some (r, if 0 < sint (contTemp r) then sint (contTemp r) else - 1)"
  using assms by (simp add: getTemp_def)

theorem getTemp_continuous_witness:
  "getTemp (reader_holding [] \<lparr>contTemp := 26\<rparr>) = Some (reader_holding [] \<lparr>contTemp := 26\<rparr>, 26) \<and>
   getTemp (reader_holding []) = Some (reader_holding [], - 1) \<and>
   getTemp (reader_holding [] \<lparr>contTemp := 0xFB\<rparr>) = Some (reader_holding [] \<lparr>contTemp := 0xFB\<rparr>, - 1)"
  using getTemp_continuous [of "reader_holding [] \<lparr>contTemp := 26\<rparr>"]
    getTemp_continuous [of "reader_holding []"]
    getTemp_continuous [of "reader_holding [] \<lparr>contTemp := 0xFB\<rparr>"]
  by (simp add: reader_holding_def)

section \<open>The synchronous transport\<close>

lemma wr_Some: "wr a i v = Some a' \<Longrightarrow> 0 \<le> i \<and> i < int (length a) \<and> a' = a[nat i := v]"
  by (auto simp add: wr_def split: if_splits)

lemma rd_Some: "rd a i = Some v \<Longrightarrow> 0 \<le> i \<and> i < int (length a) \<and> v = a ! nat i"
  by (auto simp add: rd_def split: if_splits)

lemma wr_in_range: "0 \<le> i \<Longrightarrow> i < int (length a) \<Longrightarrow> wr a i v = Some (a[nat i := v])"
  by (simp add: wr_def)

lemma rd_in_range: "0 \<le> i \<Longrightarrow> i < int (length a) \<Longrightarrow> rd a i = Some (a ! nat i)"
  by (simp add: rd_def)

lemma uint_offs:
  fixes w :: u8
  shows "nat (uint w + 3) = unat w + 3" and "nat (uint w + 4) = unat w + 4"
    and "nat (uint w + 5) = unat w + 5"
    and "uint w + 4 < int n \<longleftrightarrow> unat w + 4 < n"
    and "uint w + 3 < int n \<longleftrightarrow> unat w + 3 < n"
    and "0 \<le> uint w + 3" and "0 \<le> uint w + 4"
  unfolding uint_nat by linarith+

lemma attach_crc_Some:
  assumes "attach_crc m = Some cmd"
  shows "length cmd = length m" and "rd cmd 1 = Some (m ! 1)" and "rd cmd 2 = Some (m ! 2)"
    and "unat (m ! 1) + 4 < length m"
proof -
  from assms have "\<exists>m0. wr m 0 0xFF = Some m0 \<and> (\<exists>len. rd m0 1 = Some len \<and>
      (\<exists>crc. calculateCRC (drop 1 m0) (len + 2) = Some crc \<and>
        (\<exists>m1. wr m0 (uint len + 3) (ucast (drop_bit 8 crc)) = Some m1 \<and>
           wr m1 (uint len + 4) (ucast (crc AND 0xFF)) = Some cmd)))"
    by (simp only: attach_crc_def bind_eq_Some_conv)
  then obtain m0 len crc m1 where
    0: "wr m 0 0xFF = Some m0" and 1: "rd m0 1 = Some len"
    and 2: "calculateCRC (drop 1 m0) (len + 2) = Some crc"
    and 3: "wr m0 (uint len + 3) (ucast (drop_bit 8 crc)) = Some m1"
    and 4: "wr m1 (uint len + 4) (ucast (crc AND 0xFF)) = Some cmd"
    by blast
  note w0 = wr_Some [OF 0] and r1 = rd_Some [OF 1] and w3 = wr_Some [OF 3] and w4 = wr_Some [OF 4]
  from w0 r1 have len: "len = m ! 1" "1 < length m"
    by simp_all
  from w0 w3 w4 show "length cmd = length m"
    by simp
  from w0 w3 w4 have "uint len + 4 < int (length m)"
    by simp
  then have b: "unat len + 4 < length m"
    by (simp only: uint_offs)
  then show "unat (m ! 1) + 4 < length m"
    by (simp only: len)
  have c: "cmd = m[0 := 0xFF, unat len + 3 := ucast (drop_bit 8 crc), unat len + 4 := ucast (crc AND 0xFF)]"
    using w0 w3 w4 by (simp add: uint_offs)
  show "rd cmd 1 = Some (m ! 1)"
    using len b by (simp add: rd_def c)
  show "rd cmd 2 = Some (m ! 2)"
    using b by (simp add: rd_def c)
qed

lemma unat_plus2_le: "unat ((x :: u8) + 2) \<le> unat x + 2"
proof -
  have "unat (x + 2) = (unat x + unat (2 :: u8)) mod 2 ^ LENGTH(8)"
    by (rule unat_word_ariths)
  also have "\<dots> \<le> unat x + unat (2 :: u8)"
    by (rule mod_less_eq_dividend)
  finally show ?thesis
    by simp
qed

lemma attach_crc_fits:
  assumes "unat (m ! 1) + 4 < length m"
  shows "\<exists>cmd. attach_crc m = Some cmd"
proof -
  have l: "1 < length m"
    using assms by auto
  have w0: "wr m 0 0xFF = Some (m[0 := 0xFF])"
    using l by (auto simp add: wr_def)
  have r1: "rd (m[0 := 0xFF]) 1 = Some (m ! 1)"
    using l by (simp add: rd_def)
  have "unat (m ! 1 + 2) \<le> length (drop 1 (m[0 := 0xFF]))"
    using unat_plus2_le [of "m ! 1"] assms by simp
  then obtain crc where c: "calculateCRC (drop 1 (m[0 := 0xFF])) (m ! 1 + 2) = Some crc"
    by (simp add: calculateCRC_crc16)
  have b: "uint (m ! 1) + 4 < int (length m)" "uint (m ! 1) + 3 < int (length m)"
    using assms by (simp_all only: uint_offs)
  have w3: "wr (m[0 := 0xFF]) (uint (m ! 1) + 3) (ucast (drop_bit 8 crc)) =
      Some (m[0 := 0xFF, nat (uint (m ! 1) + 3) := ucast (drop_bit 8 crc)])"
    using b by (intro wr_in_range) (simp_all add: uint_offs)
  have w4: "wr (m[0 := 0xFF, nat (uint (m ! 1) + 3) := ucast (drop_bit 8 crc)]) (uint (m ! 1) + 4)
        (ucast (crc AND 0xFF)) =
      Some (m[0 := 0xFF, nat (uint (m ! 1) + 3) := ucast (drop_bit 8 crc),
              nat (uint (m ! 1) + 4) := ucast (crc AND 0xFF)])"
    using b by (intro wr_in_range) (simp_all add: uint_offs)
  show ?thesis
    by (simp only: attach_crc_def w0 r1 c w3 w4 Option.bind.simps) simp
qed


lemma u8_of_nat:
  assumes "k < 256"
  shows "unat (of_nat k :: u8) = k" and "uint (of_nat k :: u8) = int k"
proof -
  show a: "unat (of_nat k :: u8) = k"
    using assms by (simp add: unat_of_nat)
  show "uint (of_nat k :: u8) = int k"
    unfolding uint_nat a ..
qed

lemma update_prefix:
  assumes "length pre < length m"
  shows "(pre @ drop (length pre) m)[length pre := b] = (pre @ [b]) @ drop (Suc (length pre)) m"
proof -
  have "drop (length pre) m = m ! length pre # drop (Suc (length pre)) m"
    using assms by (simp add: Cons_nth_drop_Suc)
  then show ?thesis
    by (simp add: list_update_append)
qed

lemma receive_loop_body:
  assumes "length pre + length post = unat ml" and "unat ml < 255" and "2 \<le> length pre"
    and "unat ml \<le> length m"
  shows "receive_loop (pre @ drop (length pre) m) (of_nat (length pre)) ml (post @ extra) =
         Some (True, (pre @ post) @ drop (unat ml) m, ml, extra)"
  using assms
proof (induction post arbitrary: pre)
  case Nil
  then have s: "(of_nat (length pre) :: u8) = ml"
    by simp
  show ?case
    using Nil.prems(1) by (cases extra) (simp_all add: s)
next
  case (Cons b post)
  let ?k = "length pre"
  have k: "?k < unat ml" "?k < 256" "Suc ?k < 255" "?k < length m"
    using Cons.prems by simp_all
  have lt: "(of_nat ?k :: u8) < ml"
    using k by (simp add: word_less_nat_alt u8_of_nat)
  have ne: "(of_nat ?k :: u8) \<noteq> 1"
  proof
    assume "(of_nat ?k :: u8) = 1"
    then have "unat (of_nat ?k :: u8) = unat (1 :: u8)"
      by simp
    then show False
      using k Cons.prems(3) by (simp add: u8_of_nat)
  qed
  have w: "wr (pre @ drop ?k m) (uint (of_nat ?k :: u8)) b = Some ((pre @ [b]) @ drop (Suc ?k) m)"
    using k by (simp add: u8_of_nat wr_def update_prefix)
  have a1: "unat (of_nat ?k + 1 :: u8) = Suc ?k"
    using k by (simp add: unat_word_ariths u8_of_nat)
  have a2: "unat ((of_nat ?k + 1 :: u8) mod 255) = Suc ?k"
    using k by (simp add: unat_mod a1)
  have "Suc ?k < 256"
    using k by simp
  then have a3: "unat (of_nat (Suc ?k) :: u8) = Suc ?k"
    by (rule u8_of_nat)
  have nx: "(of_nat ?k + 1 :: u8) mod 255 = of_nat (length (pre @ [b]))"
    by (simp only: word_unat_eq_iff a2 a3 length_append_singleton)
  have "receive_loop (pre @ drop ?k m) (of_nat ?k) ml ((b # post) @ extra) =
        receive_loop ((pre @ [b]) @ drop (Suc ?k) m) (of_nat (length (pre @ [b]))) ml (post @ extra)"
    using lt ne w nx by simp
  also have "\<dots> = Some (True, ((pre @ [b]) @ post) @ drop (unat ml) m, ml, extra)"
    using Cons.IH [of "pre @ [b]"] Cons.prems by simp
  finally show ?case
    by simp
qed

lemma receive_loop_frame:
  assumes "complete_frame f" and "length f < MAX_MSG_SIZE" and "length f \<le> length m"
  shows "receive_loop m 0 (of_nat (MAX_MSG_SIZE - 1)) (f @ extra) =
         Some (True, f @ drop (length f) m, f ! 1 + 7, extra)"
proof -
  have n: "length f = unat (f ! 1) + 7"
    using assms(1) by (simp add: complete_frame_def)
  then obtain f0 f1 post where f: "f = f0 # f1 # post"
    by (cases f; cases "tl f") auto
  have t: "unat (f1 + 7) = length f" 
    using u8_total(1) [of f1] n assms(2) by (simp add: f MAX_MSG_SIZE_def)
  have "2 \<le> length m"
    using assms(3) f by simp
  then obtain a0 a1 as where m: "m = a0 # a1 # as"
    by (cases m; cases "tl m") auto
  have m2: "m[0 := f0, 1 := f1] = [f0, f1] @ drop (length [f0, f1]) m"
    by (simp add: m)
  have "receive_loop m 0 (of_nat (MAX_MSG_SIZE - 1)) (f @ extra) =
        receive_loop (m[0 := f0, 1 := f1]) 2 (f1 + 7) (post @ extra)"
    by (simp add: f m MAX_MSG_SIZE_def wr_def rd_def)
  also have "\<dots> = receive_loop ([f0, f1] @ drop (length [f0, f1]) m) (of_nat (length [f0, f1]))
        (f1 + 7) (post @ extra)"
    by (simp only: m2) simp
  also have "\<dots> = Some (True, ([f0, f1] @ post) @ drop (unat (f1 + 7)) m, f1 + 7, extra)"
    using assms(2,3) t f by (intro receive_loop_body) (simp_all add: MAX_MSG_SIZE_def)
  finally show ?thesis
    by (simp add: t) (simp add: f)
qed


lemma check_response_frame:
  assumes "complete_frame f" and "length f < 256" and "take (length f) m = f"
  shows "check_response m (f ! 1 + 7) opcode =
     Some (m[0 := (if \<not> crc_valid f then ERROR_CORRUPT_RESPONSE
                   else if f ! 2 \<noteq> opcode then ERROR_WRONG_OPCODE_RESPONSE
                   else ALL_GOOD)])"
proof -
  have n: "length f = unat (f ! 1) + 7"
    using assms(1) by (simp add: complete_frame_def)
  have r2: "rd m 2 = Some (f ! 2)"
    using frame_rd [OF assms(3), of 2] n by simp
  have "0 < length m"
    using frame_le [OF assms(3)] n by auto
  then have w: "\<And>v. wr m 0 v = Some (m[0 := v])"
    by (simp add: wr_def)
  note c = frame_calculateCRC [OF assms]
  note t = frame_trailing_rd [OF assms]
  show ?thesis
    unfolding check_response_def
    apply (simp only: r2 c t w Option.bind.simps)
    apply (simp add: crc_valid_bytes)
    done
qed

text \<open>What \<open>sendCommand\<close> does with a complete frame as the answer.\<close>

lemma sendCommand_reply:
  assumes "attach_crc (msg_arr r) = Some cmd" and "MAX_MSG_SIZE \<le> length (msg r)"
    and "peer (rfidSerial r) = (f @ extra) # later"
    and "complete_frame f" and "length f < MAX_MSG_SIZE"
  shows "sendCommand r timeOut True =
     Some (r\<lparr>msg := (f @ drop (length f) cmd)
                   [0 := (if \<not> crc_valid f then ERROR_CORRUPT_RESPONSE
                          else if f ! 2 \<noteq> cmd ! 2 then ERROR_WRONG_OPCODE_RESPONSE
                          else ALL_GOOD)],
             rfidSerial := (rfidSerial r)
               \<lparr>rx := extra, tx := tx (rfidSerial r) @ take (unat (cmd ! 1) + 5) cmd,
                peer := later\<rparr>\<rparr>)"
proof -
  let ?m = "msg_arr r"
  note a = attach_crc_Some [OF assms(1)]
  have lm: "length ?m = MAX_MSG_SIZE"
    using assms(2) by (simp add: msg_arr_def)
  have lc: "length cmd = 255"
    using a(1) lm by (simp add: MAX_MSG_SIZE_def)
  have c1: "cmd ! 1 = ?m ! 1" and c2: "cmd ! 2 = ?m ! 2"
    using a(2,3) lc by (simp_all add: rd_def)
  have g: "\<not> 255 < uint (?m ! 1) + 5"
    using a(4) lm unfolding uint_nat MAX_MSG_SIZE_def by linarith
  have fl: "length f < 256" "length f \<le> length cmd" "f \<noteq> []"
    using assms(4,5) lc by (auto simp add: MAX_MSG_SIZE_def complete_frame_def)
  have s: "module_answers (write_bytes (flush_input (rfidSerial r)) (take (nat (uint (?m ! 1) + 5)) cmd))
      = (rfidSerial r)\<lparr>rx := f @ extra, tx := tx (rfidSerial r) @ take (unat (cmd ! 1) + 5) cmd,
           peer := later\<rparr>"
    using assms(3) c1 by (simp add: module_answers_def write_bytes_def flush_input_def uint_offs)
  have rl: "receive_loop cmd 0 (of_nat (MAX_MSG_SIZE - 1)) (f @ extra) =
      Some (True, f @ drop (length f) cmd, f ! 1 + 7, extra)"
    using assms(4,5) fl(2) by (rule receive_loop_frame)
  have tk: "take (length f) (f @ drop (length f) cmd) = f"
    by simp
  note cr = check_response_frame [OF assms(4) fl(1) tk, of "?m ! 2"]
  show ?thesis
    unfolding sendCommand_def
    apply (simp only: assms(1) a(2,3) Option.bind.simps g if_False Let_def s)
    apply (insert rl cr fl(3) c2)
    apply simp
    done
qed




lemma verdict_rd:
  "f \<noteq> [] \<Longrightarrow> rd ((f @ rest)[0 := v]) 0 = Some v"
  by (cases f) (simp_all add: rd_def)



section \<open>The selective-match loop\<close>

lemma take_Suc_update: "k < length m \<Longrightarrow> take (Suc k) (m[k := v]) = take k m @ [v]"
  by (simp add: take_Suc_conv_app_nth)

lemma copy_data_eq:
  "x + n \<le> length data \<Longrightarrow> 3 + x + n \<le> length m \<Longrightarrow>
   copy_data m data x n = Some (take (3 + x) m @ take n (drop x data) @ drop (3 + x + n) m)"
proof (induction n arbitrary: m x)
  case 0
  then show ?case by simp
next
  case (Suc n)
  have r: "rd data (int x) = Some (data ! x)"
    using Suc.prems by (simp add: rd_def)
  have w: "wr m (3 + int x) (data ! x) = Some (m[3 + x := data ! x])"
    using Suc.prems by (simp add: wr_def nat_add_distrib)
  have "copy_data m data x (Suc n) = copy_data (m[3 + x := data ! x]) data (Suc x) n"
    by (simp add: r w)
  also have "\<dots> = Some (take (3 + Suc x) (m[3 + x := data ! x]) @ take n (drop (Suc x) data) @
        drop (3 + Suc x + n) (m[3 + x := data ! x]))"
    using Suc.prems by (intro Suc.IH) simp_all
  also have "take (3 + Suc x) (m[3 + x := data ! x]) = take (3 + x) m @ [data ! x]"
    using Suc.prems take_Suc_update [of "3 + x" m "data ! x"] by simp
  also have "drop (3 + Suc x + n) (m[3 + x := data ! x]) = drop (3 + x + Suc n) m"
    by (simp add: ac_simps)
  finally have c: "copy_data m data x (Suc n) =
      Some ((take (3 + x) m @ [data ! x]) @ take n (drop (Suc x) data) @ drop (3 + x + Suc n) m)" .
  have "[data ! x] @ take n (drop (Suc x) data) = take (Suc n) (drop x data)"
    using Suc.prems by (simp add: Cons_nth_drop_Suc [symmetric])
  then show ?case
    unfolding c by simp
qed


lemma three_cells: "3 \<le> length m \<Longrightarrow> \<exists>a0 a1 a2 as. m = a0 # a1 # a2 # as"
  by (cases m; cases "tl m"; cases "tl (tl m)") auto

text \<open>The array after \<open>sendMessage\<close> has stored length, opcode and data.\<close>

lemma sendMessage_stores:
  assumes "MAX_MSG_SIZE \<le> length (msg r)" and "unat size' \<le> length data"
    and "unat size' + 4 < MAX_MSG_SIZE"
  shows "\<exists>m3. length m3 = MAX_MSG_SIZE \<and> m3 ! 1 = size' \<and> m3 ! 2 = opcode \<and>
     sendMessage r opcode data size' timeOut waitForResponse =
       sendCommand (r\<lparr>msg := m3\<rparr>) timeOut waitForResponse"
proof -
  let ?m = "msg_arr r"
  have lm: "length ?m = 255"
    using assms(1) by (simp add: msg_arr_def MAX_MSG_SIZE_def)
  let ?m2 = "?m[1 := size', 2 := opcode]"
  let ?m3 = "take (3 + 0) ?m2 @ take (unat size') (drop 0 data) @ drop (3 + 0 + unat size') ?m2"
  have w1: "wr ?m 1 size' = Some (?m[1 := size'])"
    using lm by (simp add: wr_def)
  have w2: "wr (?m[1 := size']) 2 opcode = Some ?m2"
    using lm by (simp add: wr_def)
  have cd: "copy_data ?m2 data 0 (unat size') = Some ?m3"
    using assms(2,3) lm by (intro copy_data_eq) (simp_all add: MAX_MSG_SIZE_def)
  have l3: "length ?m3 = MAX_MSG_SIZE"
    using assms(2,3) lm by (simp add: MAX_MSG_SIZE_def)
  obtain a0 a1 a2 as where dm: "?m = a0 # a1 # a2 # as"
    using three_cells [of ?m] lm by auto
  have t3: "take 3 ?m2 = [?m ! 0, size', opcode]"
    by (simp add: dm)
  have "?m3 ! 1 = size'" "?m3 ! 2 = opcode"
    using t3 by simp_all
  moreover have "sendMessage r opcode data size' timeOut waitForResponse =
      sendCommand (r\<lparr>msg := ?m3\<rparr>) timeOut waitForResponse"
    unfolding sendMessage_def by (simp only: w1 w2 cd Option.bind.simps)
  ultimately show ?thesis
    using l3 by blast
qed

lemma sendMessage_reply:
  assumes "MAX_MSG_SIZE \<le> length (msg r)" and "unat size' \<le> length data"
    and "unat size' + 4 < MAX_MSG_SIZE"
    and "peer (rfidSerial r) = (f @ extra) # later"
    and "complete_frame f" and "length f < MAX_MSG_SIZE"
  shows "\<exists>cmd. length cmd = MAX_MSG_SIZE \<and>
     sendMessage r opcode data size' timeOut True =
       Some (r\<lparr>msg := (f @ drop (length f) cmd)
                     [0 := (if \<not> crc_valid f then ERROR_CORRUPT_RESPONSE
                            else if f ! 2 \<noteq> opcode then ERROR_WRONG_OPCODE_RESPONSE
                            else ALL_GOOD)],
               rfidSerial := (rfidSerial r)
                 \<lparr>rx := extra, tx := tx (rfidSerial r) @ take (unat size' + 5) cmd,
                  peer := later\<rparr>\<rparr>)"
proof -
  obtain m3 where m3: "length m3 = MAX_MSG_SIZE" "m3 ! 1 = size'" "m3 ! 2 = opcode"
    and sm: "sendMessage r opcode data size' timeOut True = sendCommand (r\<lparr>msg := m3\<rparr>) timeOut True"
    using sendMessage_stores [OF assms(1-3)] by blast
  let ?r = "r\<lparr>msg := m3\<rparr>"
  have ma: "msg_arr ?r = m3"
    using m3(1) by (simp add: msg_arr_def)
  have "unat (m3 ! 1) + 4 < length m3"
    using assms(3) m3 by simp
  then obtain cmd where cmd: "attach_crc (msg_arr ?r) = Some cmd"
    using attach_crc_fits [of m3] ma by auto
  note a = attach_crc_Some [OF cmd]
  have lc: "length cmd = MAX_MSG_SIZE"
    using a(1) ma m3(1) by simp
  have c: "cmd ! 1 = size'" "cmd ! 2 = opcode"
    using a(2,3) lc m3 ma by (simp_all add: rd_def MAX_MSG_SIZE_def)
  have l: "MAX_MSG_SIZE \<le> length (msg ?r)"
    using m3(1) by simp
  have p: "peer (rfidSerial ?r) = (f @ extra) # later"
    using assms(4) by simp
  show ?thesis
    using sendCommand_reply [OF cmd l p assms(5,6), of timeOut] lc c sm
    by (intro exI [of _ cmd]) simp
qed


lemma rd_nat: "k < length a \<Longrightarrow> rd a (int k) = Some (a ! k)"
  by (simp add: rd_def)

lemma match_loop_window:
  assumes "unat EPCstart + unat (EPClen selepc) \<le> length m"
    and "unat (EPClen selepc) \<le> length (TMR_EPC selepc)" and "e \<le> unat (EPClen selepc)"
  shows "\<exists>e'. match_loop m EPCstart selepc e = Some e' \<and> e' \<le> unat (EPClen selepc) \<and>
     (e' = unat (EPClen selepc) \<longleftrightarrow>
        take (unat (EPClen selepc) - e) (drop (unat EPCstart + e) m) =
        take (unat (EPClen selepc) - e) (drop e (TMR_EPC selepc)))"
  using assms
proof (induction m EPCstart selepc e rule: match_loop.induct)
  case (1 m EPCstart selepc e)
  let ?n = "unat (EPClen selepc)"
  show ?case
  proof (cases "e < ?n")
    case False
    then show ?thesis
      using "1.prems" by (subst match_loop.simps) simp
  next
    case True
    have i: "uint EPCstart + int e = int (unat EPCstart + e)"
      by (simp only: uint_nat of_nat_add)
    have "unat EPCstart + e < length m"
      using True "1.prems" by linarith
    then have ra: "rd m (uint EPCstart + int e) = Some (m ! (unat EPCstart + e))"
      unfolding i by (rule rd_nat)
    have rb: "rd (TMR_EPC selepc) (int e) = Some (TMR_EPC selepc ! e)"
      using True "1.prems" by (simp add: rd_def)
    have da: "take (?n - e) (drop (unat EPCstart + e) m) =
        m ! (unat EPCstart + e) # take (?n - Suc e) (drop (unat EPCstart + Suc e) m)"
      using True "1.prems"
      by (metis (no_types, lifting) Cons_nth_drop_Suc Suc_diff_Suc add_Suc_right add_less_cancel_left
          less_le_trans take_Suc_Cons)
    have db: "take (?n - e) (drop e (TMR_EPC selepc)) =
        TMR_EPC selepc ! e # take (?n - Suc e) (drop (Suc e) (TMR_EPC selepc))"
      using True "1.prems"
      by (metis Cons_nth_drop_Suc Suc_diff_Suc less_le_trans take_Suc_Cons)
    show ?thesis
    proof (cases "m ! (unat EPCstart + e) = TMR_EPC selepc ! e")
      case False
      then show ?thesis
        using True ra rb by (subst match_loop.simps) (simp add: da db)
    next
      case eq: True
      have "match_loop m EPCstart selepc e = match_loop m EPCstart selepc (Suc e)"
        using True ra rb eq by (subst match_loop.simps) simp
      then show ?thesis
        using "1.IH" [OF True ra rb] eq "1.prems" True by (simp add: da db)
    qed
  qed
qed


lemma window_in_frame:
  assumes "0 < start" and "start + n \<le> length f"
  shows "take n (drop start ((f @ rest)[0 := v])) = take n (drop start f)"
  using assms by (simp add: drop_update_cancel)

lemma select_loop_mismatches:
  assumes rc: "RetryCount selepc \<noteq> 0" "unat (RetryCount selepc) < 255"
    and blob: "20 \<le> length configBlob"
  shows "MAX_MSG_SIZE \<le> length (msg r) \<Longrightarrow> unat k \<le> unat (RetryCount selepc) + 1 \<Longrightarrow>
     peer (rfidSerial r) = fs @ later \<Longrightarrow>
     length fs = unat (RetryCount selepc) + 2 - unat k \<Longrightarrow>
     \<forall>f \<in> set fs. valid_mismatch selepc EPCBankStartPos f \<Longrightarrow>
     \<exists>r'. select_loop r selepc EPCBankStartPos configBlob k =
            Some (Some ERROR_COMMAND_RESPONSE_TIMEOUT, r') \<and>
          peer (rfidSerial r') = later \<and>
          length (tx (rfidSerial r')) = length (tx (rfidSerial r)) + 25 * length fs"
proof (induction fs arbitrary: r k)
  case Nil
  then show ?case by simp
next
  case (Cons f fs)
  let ?n = "unat (EPClen selepc)"
  let ?start = "unat EPCBankStartPos + unat (EPCoffset selepc)"
  have vm: "valid_mismatch selepc EPCBankStartPos f"
    using Cons.prems(5) by simp
  then have f: "complete_frame f" "length f < MAX_MSG_SIZE" "crc_valid f"
    "f ! 2 = TMR_SR_OPCODE_READ_TAG_ID_MULTIPLE" "0 < ?start" "?start + ?n \<le> length f"
    "?n \<le> length (TMR_EPC selepc)"
    "take ?n (drop ?start f) \<noteq> take ?n (TMR_EPC selepc)"
    by (simp_all add: valid_mismatch_def)
  have p: "peer (rfidSerial r) = (f @ []) # (fs @ later)"
    using Cons.prems(3) by simp
  have sz: "unat (20 :: u8) \<le> length configBlob" "unat (20 :: u8) + 4 < MAX_MSG_SIZE"
    using blob by (simp_all add: MAX_MSG_SIZE_def)
  obtain cmd where cmd: "length cmd = MAX_MSG_SIZE"
    and sm: "sendMessage r TMR_SR_OPCODE_READ_TAG_ID_MULTIPLE configBlob 20 COMMAND_TIME_OUT True =
       Some (r\<lparr>msg := (f @ drop (length f) cmd)[0 := ALL_GOOD],
               rfidSerial := (rfidSerial r)
                 \<lparr>rx := [], tx := tx (rfidSerial r) @ take (unat (20 :: u8) + 5) cmd,
                  peer := fs @ later\<rparr>\<rparr>)"
    using sendMessage_reply [OF Cons.prems(1) sz p f(1,2), of TMR_SR_OPCODE_READ_TAG_ID_MULTIPLE COMMAND_TIME_OUT]
      f(3,4)
    by auto
  define r1 where "r1 = r\<lparr>msg := (f @ drop (length f) cmd)[0 := ALL_GOOD],
               rfidSerial := (rfidSerial r)
                 \<lparr>rx := [], tx := tx (rfidSerial r) @ take (unat (20 :: u8) + 5) cmd,
                  peer := fs @ later\<rparr>\<rparr>"
  have l1: "length (msg r1) = MAX_MSG_SIZE"
    using cmd f(2) by (simp add: r1_def)
  then have ma: "msg_arr r1 = (f @ drop (length f) cmd)[0 := ALL_GOOD]"
    by (simp add: msg_arr_def r1_def)
  have "f \<noteq> []"
    using f(1) by (auto simp add: complete_frame_def)
  then have st: "rd (msg_arr r1) 0 = Some ALL_GOOD"
    unfolding ma by (rule verdict_rd)
  have us: "unat (EPCBankStartPos + EPCoffset selepc) = ?start"
    using f(2,6) by (simp add: unat_add_lem [THEN iffD1] MAX_MSG_SIZE_def)
  have "unat (EPCBankStartPos + EPCoffset selepc) + ?n \<le> length (msg_arr r1)"
    using f(6) cmd f(2) by (simp add: us ma)
  then obtain e where e: "match_loop (msg_arr r1) (EPCBankStartPos + EPCoffset selepc) selepc 0 = Some e"
    and en: "e = ?n \<longleftrightarrow> take (?n - 0) (drop (unat (EPCBankStartPos + EPCoffset selepc) + 0) (msg_arr r1)) =
        take (?n - 0) (drop 0 (TMR_EPC selepc))"
    using match_loop_window [of "EPCBankStartPos + EPCoffset selepc" selepc "msg_arr r1" 0] f(7)
    by auto
  have "e \<noteq> ?n"
    using en f(8) window_in_frame [OF f(5,6)] by (simp add: us ma)
  then have ne: "int e \<noteq> uint (EPClen selepc)"
    by (simp only: uint_nat of_nat_eq_iff) simp
  have tx1: "length (tx (rfidSerial r1)) = length (tx (rfidSerial r)) + 25"
    using cmd by (simp add: r1_def MAX_MSG_SIZE_def)
  have p1: "peer (rfidSerial r1) = fs @ later"
    by (simp add: r1_def)
  have unfold: "select_loop r selepc EPCBankStartPos configBlob k =
      (if RetryCount selepc < k then Some (Some ERROR_COMMAND_RESPONSE_TIMEOUT, r1)
       else select_loop r1 selepc EPCBankStartPos configBlob (k + 1))"
    apply (subst select_loop.simps)
    apply (simp only: sm r1_def [symmetric] Option.bind.simps st Let_def e)
    apply (simp add: ne rc)
    done
  show ?case
  proof (cases "RetryCount selepc < k")
    case True
    then have "unat k = unat (RetryCount selepc) + 1"
      using Cons.prems(2) by (simp add: word_less_nat_alt)
    then have "fs = []"
      using Cons.prems(4) by simp
    then show ?thesis
      using True unfold tx1 p1 by simp
  next
    case False
    then have le: "unat k \<le> unat (RetryCount selepc)"
      by (simp add: word_less_nat_alt)
    then have k1: "unat (k + 1) = unat k + 1"
      using rc(2) by (simp add: unat_add_lem [THEN iffD1])
    have "\<exists>r'. select_loop r1 selepc EPCBankStartPos configBlob (k + 1) =
            Some (Some ERROR_COMMAND_RESPONSE_TIMEOUT, r') \<and>
          peer (rfidSerial r') = later \<and>
          length (tx (rfidSerial r')) = length (tx (rfidSerial r1)) + 25 * length fs"
      using l1 le k1 p1 Cons.prems(4,5) by (intro Cons.IH) simp_all
    then show ?thesis
      using False unfold tx1 by auto
  qed
qed


text \<open>
  Claim C3. The claim says that with a retry limit of 3 and a module whose every valid
  answer fails the comparison the loop gives up after exactly 4 read attempts. The code
  gives up after exactly 5: with \<open>RetryCount = 3\<close> and five such answers waiting, the loop
  ends with the code for an exceeded retry count (\<open>ERROR_COMMAND_RESPONSE_TIMEOUT\<close>) only
  when it has written five read commands of 25 bytes each and has used up all five
  answers. The test \<^verbatim>\<open>retryCount++ > selepc->RetryCount\<close> compares the counter before it is
  incremented.
\<close>

theorem select_loop_retry_limit_3:
  assumes "MAX_MSG_SIZE \<le> length (msg r)" and "20 \<le> length configBlob"
    and "RetryCount selepc = 3"
    and "peer (rfidSerial r) = fs @ later" and "length fs = 5"
    and "\<forall>f \<in> set fs. valid_mismatch selepc EPCBankStartPos f"
  shows "\<exists>r'. select_loop r selepc EPCBankStartPos configBlob 0 =
            Some (Some ERROR_COMMAND_RESPONSE_TIMEOUT, r') \<and>
          peer (rfidSerial r') = later \<and>
          length (tx (rfidSerial r')) = length (tx (rfidSerial r)) + 5 * 25"
proof -
  have "RetryCount selepc \<noteq> 0" "unat (RetryCount selepc) < 255"
    "unat (0 :: u8) \<le> unat (RetryCount selepc) + 1"
    "length fs = unat (RetryCount selepc) + 2 - unat (0 :: u8)"
    using assms(3,5) by simp_all
  then show ?thesis
    using select_loop_mismatches [OF _ _ assms(2,1) _ assms(4) _ assms(6), of 0] assms(5)
    by simp
qed

lemma crc_valid_epc_reply: "crc_valid epc_reply"
  by (simp add: crc_eval epc_reply_def)

lemma valid_mismatch_epc_reply: "valid_mismatch other_tag 23 epc_reply"
  using crc_valid_epc_reply
  by (simp add: valid_mismatch_def other_tag_def)
    (simp add: epc_reply_def complete_frame_def MAX_MSG_SIZE_def
      TMR_SR_OPCODE_READ_TAG_ID_MULTIPLE_def)

theorem select_loop_retry_limit_3_witness:
  "\<exists>r'. select_loop (reader_with [] (replicate 5 epc_reply @ [epc_reply])) other_tag 23
           (select_configBlob TMR_GEN2_BANK_EPC COMMAND_TIME_OUT) 0 =
           Some (Some ERROR_COMMAND_RESPONSE_TIMEOUT, r') \<and>
         peer (rfidSerial r') = [epc_reply] \<and> length (tx (rfidSerial r')) = 125"
proof -
  have "MAX_MSG_SIZE \<le> length (msg (reader_with [] (replicate 5 epc_reply @ [epc_reply])))"
    and "peer (rfidSerial (reader_with [] (replicate 5 epc_reply @ [epc_reply]))) =
         replicate 5 epc_reply @ [epc_reply]"
    and "tx (rfidSerial (reader_with [] (replicate 5 epc_reply @ [epc_reply]))) = []"
    by (simp_all add: reader_with_def)
  moreover have "20 \<le> length (select_configBlob TMR_GEN2_BANK_EPC COMMAND_TIME_OUT)"
    by (simp add: select_configBlob_def Let_def)
  moreover have "RetryCount other_tag = 3"
    by (simp add: other_tag_def)
  moreover have "\<forall>f \<in> set (replicate 5 epc_reply). valid_mismatch other_tag 23 f"
    using valid_mismatch_epc_reply by simp
  ultimately show ?thesis
    using select_loop_retry_limit_3 [of "reader_with [] (replicate 5 epc_reply @ [epc_reply])"
        "select_configBlob TMR_GEN2_BANK_EPC COMMAND_TIME_OUT" other_tag "replicate 5 epc_reply"
        "[epc_reply]" 23]
    by simp
qed

text \<open>
  Claim C6. When \<open>EPCoffset + EPClen\<close> exceeds 12 or \<open>EPCoffset\<close> is 12,
  \<open>SelectiveReadDataRegion\<close> returns \<open>ERROR_INVALID_EPC_REQ\<close> at once, with
  \<open>dataLengthRead\<close> set to 0: the reader is returned as it was, so no byte has been
  written to the serial stream and none has been read from it.
\<close>

theorem SelectiveReadDataRegion_invalid_filter:
  assumes "12 < unat (EPCoffset selepc) + unat (EPClen selepc) \<or> EPCoffset selepc = 12"
  shows "SelectiveReadDataRegion r selepc bank address length' dataRead dataLengthRead timeOut =
         Some (r, ERROR_INVALID_EPC_REQ, dataRead, 0)"
proof -
  have "12 < uint (EPCoffset selepc) + uint (EPClen selepc) \<longleftrightarrow>
        12 < unat (EPCoffset selepc) + unat (EPClen selepc)"
    unfolding uint_nat by linarith
  with assms have "12 < uint (EPCoffset selepc) + uint (EPClen selepc) \<or> EPCoffset selepc = 12"
    by blast
  then show ?thesis
    unfolding SelectiveReadDataRegion_def by (simp only: if_True)
qed

theorem SelectiveReadDataRegion_invalid_filter_witness:
  "SelectiveReadDataRegion (reader_with [] [epc_reply]) (other_tag\<lparr>EPCoffset := 12\<rparr>)
     TMR_GEN2_BANK_EPC 0 6 [] 0 COMMAND_TIME_OUT =
     Some (reader_with [] [epc_reply], ERROR_INVALID_EPC_REQ, [], 0) \<and>
   SelectiveReadDataRegion (reader_with [] [epc_reply]) (other_tag\<lparr>EPCoffset := 5, EPClen := 8\<rparr>)
     TMR_GEN2_BANK_EPC 0 6 [] 0 COMMAND_TIME_OUT =
     Some (reader_with [] [epc_reply], ERROR_INVALID_EPC_REQ, [], 0) \<and>
   tx (rfidSerial (reader_with [] [epc_reply])) = []"
  using SelectiveReadDataRegion_invalid_filter [of "other_tag\<lparr>EPCoffset := 12\<rparr>"
      "reader_with [] [epc_reply]" TMR_GEN2_BANK_EPC 0 6 "[]" 0 COMMAND_TIME_OUT]
    SelectiveReadDataRegion_invalid_filter [of "other_tag\<lparr>EPCoffset := 5, EPClen := 8\<rparr>"
      "reader_with [] [epc_reply]" TMR_GEN2_BANK_EPC 0 6 "[]" 0 COMMAND_TIME_OUT]
  by (simp add: other_tag_def reader_with_def)

text \<open>
  With a filter that passes the check there is traffic. Every exchange of the transport
  that returns has written its command, at least the five bytes of header, length,
  opcode and CRC; so a call of \<open>SelectiveReadDataRegion\<close> with such a filter that returns
  has written the three commands that prepare the module and at least one read command.
\<close>

lemma tx_module_answers: "tx (module_answers (write_bytes s bs)) = tx s @ bs"
  by (simp add: module_answers_def write_bytes_def split: list.splits)

lemma tx_flush_input: "tx (flush_input s) = tx s"
  by (simp add: flush_input_def)

lemma sendCommand_writes:
  assumes "sendCommand r timeOut waitForResponse = Some r'"
  shows "\<exists>bs. tx (rfidSerial r') = tx (rfidSerial r) @ bs \<and> 5 \<le> length bs"
proof -
  obtain m where m: "attach_crc (msg_arr r) = Some m"
    using assms by (cases "attach_crc (msg_arr r)") (simp_all add: sendCommand_def)
  obtain l where l: "rd m 1 = Some l"
    using assms m by (cases "rd m 1") (simp_all add: sendCommand_def)
  obtain opc where opc: "rd m 2 = Some opc"
    using assms m l by (cases "rd m 2") (simp_all add: sendCommand_def)
  note a = attach_crc_Some [OF m]
  define bs where "bs = take (nat (uint l + 5)) m"
  have "5 \<le> length m"
    using a(1,4) by simp
  moreover have "5 \<le> nat (uint l + 5)"
    by (simp only: uint_offs)
  ultimately have b: "5 \<le> length bs"
    by (simp add: bs_def)
  have "tx (rfidSerial r') = tx (rfidSerial r) @ bs"
    using assms m l opc
    by (auto simp add: sendCommand_def Let_def bs_def [symmetric] tx_module_answers
        tx_flush_input split: if_splits prod.splits Option.bind_splits)
  then show ?thesis
    using b by blast
qed

lemma sendMessage_writes:
  assumes "sendMessage r opcode data size' timeOut waitForResponse = Some r'"
  shows "\<exists>bs. tx (rfidSerial r') = tx (rfidSerial r) @ bs \<and> 5 \<le> length bs"
proof -
  from assms obtain m3 where "sendCommand (r\<lparr>msg := m3\<rparr>) timeOut waitForResponse = Some r'"
    by (auto simp add: sendMessage_def split: Option.bind_splits)
  then show ?thesis
    using sendCommand_writes by fastforce
qed

lemma select_loop_writes:
  assumes "select_loop r selepc EPCBankStartPos configBlob retryCount = Some y"
  shows "\<exists>bs. tx (rfidSerial (snd y)) = tx (rfidSerial r) @ bs \<and> 5 \<le> length bs"
  apply (rule select_loop.raw_induct [where P = "\<lambda>r selepc EPCBankStartPos configBlob retryCount y.
      \<exists>bs. tx (rfidSerial (snd y)) = tx (rfidSerial r) @ bs \<and> 5 \<le> length bs", OF _ assms])
  subgoal premises p for f r selepc EPCBankStartPos configBlob retryCount y
  proof -
    from p(2) obtain r1 where
      sm: "sendMessage r TMR_SR_OPCODE_READ_TAG_ID_MULTIPLE configBlob 20 COMMAND_TIME_OUT True = Some r1"
      and "snd y = r1 \<or> f r1 selepc EPCBankStartPos configBlob (retryCount + 1) = Some y \<or>
           f r1 selepc EPCBankStartPos configBlob retryCount = Some y"
      by (auto simp add: Let_def split: if_splits Option.bind_splits)
    moreover obtain bs1 where b1: "tx (rfidSerial r1) = tx (rfidSerial r) @ bs1" "5 \<le> length bs1"
      using sendMessage_writes [OF sm] by blast
    ultimately consider "snd y = r1"
      | bs where "tx (rfidSerial (snd y)) = tx (rfidSerial r1) @ bs"
      using p(1) by blast
    then show ?thesis
    proof cases
      case 1
      then show ?thesis
        using b1 by blast
    next
      case 2
      then have "tx (rfidSerial (snd y)) = tx (rfidSerial r) @ (bs1 @ bs)" "5 \<le> length (bs1 @ bs)"
        using b1 by simp_all
      then show ?thesis
        by blast
    qed
  qed
  done

lemma SelectiveReadDataRegion_valid_filter:
  assumes "\<not> (12 < unat (EPCoffset selepc) + unat (EPClen selepc) \<or> EPCoffset selepc = 12)"
    and "SelectiveReadDataRegion r selepc bank address length' dataRead dataLengthRead timeOut =
         Some (r', code, dataRead', dataLengthRead')"
  shows "\<exists>bs. tx (rfidSerial r') = tx (rfidSerial r) @ bs \<and> 20 \<le> length bs"
proof -
  have "12 < uint (EPCoffset selepc) + uint (EPClen selepc) \<longleftrightarrow>
        12 < unat (EPCoffset selepc) + unat (EPClen selepc)"
    unfolding uint_nat by linarith
  with assms(1) have g: "\<not> (12 < uint (EPCoffset selepc) + uint (EPClen selepc) \<or> EPCoffset selepc = 12)"
    by blast
  from assms(2) obtain r1 r2 r3 early where
    1: "sendMessage r TMR_SR_OPCODE_SET_READER_OPTIONAL_PARAMS [0x01, 0x08, 0x00] 3
          COMMAND_TIME_OUT True = Some r1"
    and 2: "disableReadFilter r1 = Some r2"
    and 3: "sendMessage r2 TMR_SR_OPCODE_CLEAR_TAG_ID_BUFFER [] 0 COMMAND_TIME_OUT True = Some r3"
    and 4: "select_loop r3 selepc (if bank = TMR_GEN2_BANK_EPC then 23 else 25)
          (select_configBlob bank timeOut) 0 = Some (early, r')"
    unfolding SelectiveReadDataRegion_def using g
    by (simp only: if_False Let_def)
      (auto split: Option.bind_splits option.splits prod.splits)
  obtain b1 where b1: "tx (rfidSerial r1) = tx (rfidSerial r) @ b1" "5 \<le> length b1"
    using sendMessage_writes [OF 1] by blast
  obtain b2 where b2: "tx (rfidSerial r2) = tx (rfidSerial r1) @ b2" "5 \<le> length b2"
    using sendMessage_writes [OF 2 [unfolded disableReadFilter_def setReaderConfiguration_def]]
    by blast
  obtain b3 where b3: "tx (rfidSerial r3) = tx (rfidSerial r2) @ b3" "5 \<le> length b3"
    using sendMessage_writes [OF 3] by blast
  obtain b4 where b4: "tx (rfidSerial r') = tx (rfidSerial r3) @ b4" "5 \<le> length b4"
    using select_loop_writes [OF 4] by auto
  have "tx (rfidSerial r') = tx (rfidSerial r) @ (b1 @ b2 @ b3 @ b4)"
    "20 \<le> length (b1 @ b2 @ b3 @ b4)"
    using b1 b2 b3 b4 by simp_all
  then show ?thesis
    by blast
qed

text \<open>
  The check of the window and the copy where nothing wraps around. \<open>bl\<close> is the value
  the code takes for the length of the bank: 12 for the EPC bank, the byte \<open>msg[38]\<close> for
  another bank. For a word address below \<open>2 ^ 31 - 255\<close>, and with \<open>bl\<close> bytes from the
  start of the bank inside \<open>msg\<close>, a window of more than \<open>bl\<close> bytes from the start of the
  bank is refused with \<open>ERROR_INVALID_REQ\<close>, and any other window is copied from
  \<open>address * 2\<close> in the bank, as many bytes as were asked for and as \<open>dataLengthRead\<close> has
  room for.
\<close>

lemma copy_window_eq:
  assumes "unat BankStart + min lim cap \<le> length m" and "min lim cap \<le> length dataRead"
    and "x \<le> min lim cap"
  shows "copy_window m BankStart lim cap dataRead x =
         Some (take x dataRead @ take (min lim cap - x) (drop (unat BankStart + x) m) @
               drop (min lim cap) dataRead, min lim cap)"
  using assms
proof (induction m BankStart lim cap dataRead x rule: copy_window.induct)
  case (1 m BankStart lim cap dataRead x)
  let ?n = "min lim cap"
  let ?b = "m ! (unat BankStart + x)"
  show ?case
  proof (cases "x < lim \<and> x < cap")
    case False
    then have "x = ?n"
      using "1.prems"(3) by auto
    then show ?thesis
      using False "1.prems" by (subst copy_window.simps) auto
  next
    case True
    then have lt: "x < ?n"
      by simp
    have i: "uint BankStart + int x = int (unat BankStart + x)"
      by (simp only: uint_nat of_nat_add)
    have b1: "unat BankStart + x < length m" and b2: "x < length dataRead"
      and b3: "Suc x \<le> ?n"
      using True "1.prems"(1,2) by arith+
    have r: "rd m (uint BankStart + int x) = Some ?b"
      unfolding i using b1 by (rule rd_nat)
    have w: "wr dataRead (int x) ?b = Some (dataRead[x := ?b])"
      using b2 by (simp add: wr_def)
    have "copy_window m BankStart lim cap dataRead x =
        copy_window m BankStart lim cap (dataRead[x := ?b]) (Suc x)"
      using True r w by (subst copy_window.simps) simp
    also have "\<dots> = Some (take (Suc x) (dataRead[x := ?b]) @
        take (?n - Suc x) (drop (unat BankStart + Suc x) m) @ drop ?n (dataRead[x := ?b]), ?n)"
      using "1.prems"(1,2) b3 by (intro "1.IH" [OF True r w]) simp_all
    also have "take (Suc x) (dataRead[x := ?b]) = take x dataRead @ [?b]"
      using b2 by (rule take_Suc_update)
    also have "drop ?n (dataRead[x := ?b]) = drop ?n dataRead"
      using lt by simp
    finally have c: "copy_window m BankStart lim cap dataRead x =
        Some ((take x dataRead @ [?b]) @
          take (?n - Suc x) (drop (unat BankStart + Suc x) m) @ drop ?n dataRead, ?n)" .
    have "take (?n - x) (drop (unat BankStart + x) m) =
        ?b # take (?n - Suc x) (drop (unat BankStart + Suc x) m)"
      using b1 b3
      by (metis Cons_nth_drop_Suc Suc_diff_Suc Suc_le_lessD add_Suc_right take_Suc_Cons)
    then show ?thesis
      unfolding c by simp
  qed
qed

lemma window_sum:
  fixes address :: u32 and length' :: u8
  assumes "unat address < 2 ^ 31 - 255"
  shows "unat (address * 2 + word_of_int (uint length' * 2)) = 2 * unat address + 2 * unat length'"
proof -
  have l: "unat length' < 256"
    using unsigned_less [of length'] by simp
  have a: "unat (address * 2) = 2 * unat address"
    using assms by (simp add: unat_mult_lem [THEN iffD1])
  have "uint length' * 2 = int (2 * unat length')"
    unfolding uint_nat by linarith
  then have "(word_of_int (uint length' * 2) :: u32) = of_nat (2 * unat length')"
    by (simp only: of_int_of_nat_eq)
  then have b: "unat (word_of_int (uint length' * 2) :: u32) = 2 * unat length'"
    using l by (simp only: unat_of_nat) simp
  show ?thesis
    using a b l assms by (simp add: unat_add_lem [THEN iffD1])
qed

lemma read_window_in_bank:
  assumes hdr: "bank = TMR_GEN2_BANK_EPC \<and> sp = 23 \<and> bl = 12 \<or>
      bank \<noteq> TMR_GEN2_BANK_EPC \<and> sp = 39 \<and> rd (msg_arr r) 38 = Some bl"
    and nowrap: "unat address < 2 ^ 31 - 255"
    and fits: "unat (sp :: u8) + unat (bl :: u8) \<le> length (msg_arr r)"
    and cap: "unat dataLengthRead \<le> length dataRead"
    and n: "n = min (2 * unat length') (unat dataLengthRead)"
  shows "read_window r bank address length' dataRead dataLengthRead =
     (if unat bl < 2 * unat address + 2 * unat length' then Some (ERROR_INVALID_REQ, dataRead, 0)
      else Some (RESPONSE_SUCCESS,
                 take n (drop (unat sp + 2 * unat address) (msg_arr r)) @ drop n dataRead,
                 of_nat n))"
proof -
  have h: "(if bank = TMR_GEN2_BANK_EPC then Some (23 :: u8, 12 :: u8)
        else do { b \<leftarrow> rd (msg_arr r) 38; Some (39, b) }) = Some (sp, bl)"
    using hdr by auto
  have cmp: "(ucast bl :: u32) < address * 2 + word_of_int (uint length' * 2) \<longleftrightarrow>
      unat bl < 2 * unat address + 2 * unat length'"
  proof -
    have "unat (ucast bl :: u32) = unat bl"
    proof -
      have "unat bl < 256"
        using unsigned_less [of bl, where 'a = nat] by simp
      then show ?thesis
        by (simp add: unsigned_ucast_eq take_bit_nat_eq_self)
    qed
    then show ?thesis
      by (simp only: word_less_nat_alt window_sum [OF nowrap])
  qed
  show ?thesis
  proof (cases "unat bl < 2 * unat address + 2 * unat length'")
    case True
    then show ?thesis
      unfolding read_window_def h using cmp by simp
  next
    case False
    have len: "length (msg_arr r) \<le> 255"
      by (simp add: msg_arr_def MAX_MSG_SIZE_def)
    have a: "unat (address * 2) = 2 * unat address"
      using nowrap by (simp add: unat_mult_lem [THEN iffD1])
    have sp8: "unat sp < 256"
      using unsigned_less [of sp, where 'a = nat] by simp
    then have us: "unat (ucast sp :: u32) = unat sp"
      by (simp add: unsigned_ucast_eq take_bit_nat_eq_self)
    have "unat (ucast sp :: u32) + unat (address * 2) < 2 ^ LENGTH(32)"
      using us a False fits len by simp
    then have s: "unat ((ucast sp :: u32) + address * 2) = unat sp + 2 * unat address"
      by (simp only: unat_add_lem [THEN iffD1] us a)
    have bs: "unat (ucast ((ucast sp :: u32) + address * 2) :: u8) = unat sp + 2 * unat address"
      using s False fits len by (simp add: unsigned_ucast_eq take_bit_nat_eq_self)
    have lim: "nat (uint length' * 2) = 2 * unat length'"
      unfolding uint_nat by linarith
    have "unat (ucast ((ucast sp :: u32) + address * 2) :: u8) + min (2 * unat length') (unat dataLengthRead)
        \<le> length (msg_arr r)"
      using bs False fits by simp
    moreover have "min (2 * unat length') (unat dataLengthRead) \<le> length dataRead"
      using cap by simp
    ultimately have "copy_window (msg_arr r) (ucast ((ucast sp :: u32) + address * 2))
        (2 * unat length') (unat dataLengthRead) dataRead 0 =
        Some (take 0 dataRead @ take (n - 0) (drop (unat sp + 2 * unat address + 0) (msg_arr r)) @
              drop n dataRead, n)"
      unfolding n bs [symmetric] by (intro copy_window_eq) simp_all
    then show ?thesis
      unfolding read_window_def h using cmp False by (simp add: lim Let_def)
  qed
qed

lemma read_window_epc_sample:
  "read_window (reader_with epc_reply []) TMR_GEN2_BANK_EPC 5 1 [0, 0] 2 =
     Some (RESPONSE_SUCCESS, [0x29, 0x80], 2)"
  "read_window (reader_with epc_reply []) TMR_GEN2_BANK_EPC 6 1 [0, 0] 2 =
     Some (ERROR_INVALID_REQ, [0, 0], 0)"
proof -
  have l: "unat (23 :: u8) + unat (12 :: u8) \<le> length (msg_arr (reader_with epc_reply []))"
    by (simp add: msg_arr_def reader_with_def epc_reply_def MAX_MSG_SIZE_def)
  show "read_window (reader_with epc_reply []) TMR_GEN2_BANK_EPC 5 1 [0, 0] 2 =
     Some (RESPONSE_SUCCESS, [0x29, 0x80], 2)"
    using read_window_in_bank [of TMR_GEN2_BANK_EPC 23 12 "reader_with epc_reply []" 5 2
        "[0, 0]" 2 1] l
    by (simp add: msg_arr_def reader_with_def epc_reply_def MAX_MSG_SIZE_def)
  show "read_window (reader_with epc_reply []) TMR_GEN2_BANK_EPC 6 1 [0, 0] 2 =
     Some (ERROR_INVALID_REQ, [0, 0], 0)"
    using read_window_in_bank [of TMR_GEN2_BANK_EPC 23 12 "reader_with epc_reply []" 6 2
        "[0, 0]" 2 1] l
    by simp
qed

text \<open>
  For a bank other than the EPC bank the value at \<open>msg[38]\<close> is the length of the bank in
  words, and the check compares it with a number of bytes. In the response for the user
  bank the bank has 64 bytes, \<open>msg[38]\<close> is 32: the words 0 and 1 are copied, and the
  word 16, bytes 32 and 33 of the 64, is refused.
\<close>

lemma user_arr:
  "length (msg_arr (reader_with user_reply [])) = 255"
  "msg_arr (reader_with user_reply []) ! 38 = 0x20"
  "take 4 (drop 39 (msg_arr (reader_with user_reply []))) = [0xFF, 0xF1, 0x11, 0x22]"
  by (simp_all add: msg_arr_def reader_with_def user_reply_def MAX_MSG_SIZE_def)

lemma read_window_user_sample:
  "read_window (reader_with user_reply []) TMR_GEN2_BANK_USER 0 2 [0, 0, 0, 0] 4 =
     Some (RESPONSE_SUCCESS, [0xFF, 0xF1, 0x11, 0x22], 4)"
  "read_window (reader_with user_reply []) TMR_GEN2_BANK_USER 16 1 [0, 0] 2 =
     Some (ERROR_INVALID_REQ, [0, 0], 0)"
proof -
  have l: "unat (39 :: u8) + unat (0x20 :: u8) \<le> length (msg_arr (reader_with user_reply []))"
    by (simp add: user_arr)
  have b: "rd (msg_arr (reader_with user_reply [])) 38 = Some 0x20"
    using rd_nat [of 38 "msg_arr (reader_with user_reply [])"] by (simp add: user_arr)
  have h: "TMR_GEN2_BANK_USER = TMR_GEN2_BANK_EPC \<and> (39 :: u8) = 23 \<and> (0x20 :: u8) = 12 \<or>
      TMR_GEN2_BANK_USER \<noteq> TMR_GEN2_BANK_EPC \<and> (39 :: u8) = 39 \<and>
      rd (msg_arr (reader_with user_reply [])) 38 = Some 0x20"
    using b by (simp add: TMR_GEN2_BANK_USER_def TMR_GEN2_BANK_EPC_def)
  have "unat (0 :: u32) < 2 ^ 31 - 255" "unat (4 :: u8) \<le> length [0, 0, 0, 0 :: u8]"
    "(4 :: nat) = min (2 * unat (2 :: u8)) (unat (4 :: u8))"
    by simp_all
  from read_window_in_bank [OF h this(1) l this(2,3)]
  show "read_window (reader_with user_reply []) TMR_GEN2_BANK_USER 0 2 [0, 0, 0, 0] 4 =
     Some (RESPONSE_SUCCESS, [0xFF, 0xF1, 0x11, 0x22], 4)"
    by (simp add: user_arr)
  have "unat (16 :: u32) < 2 ^ 31 - 255" "unat (2 :: u8) \<le> length [0, 0 :: u8]"
    "(2 :: nat) = min (2 * unat (1 :: u8)) (unat (2 :: u8))"
    by simp_all
  from read_window_in_bank [OF h this(1) l this(2,3)]
  show "read_window (reader_with user_reply []) TMR_GEN2_BANK_USER 16 1 [0, 0] 2 =
     Some (ERROR_INVALID_REQ, [0, 0], 0)"
    by simp
qed

text \<open>
  Claim C7. The claim says that a requested window that exceeds the length of the bank
  is refused with \<open>ERROR_INVALID_REQ\<close>. For the word address \<open>0x80000000\<close> and one word
  the window ends \<open>2 * 0x80000000 + 2\<close> bytes into the bank, far beyond the 12 bytes of the
  EPC bank, but the code does not refuse: on 32 bits \<open>address * 2\<close> is 0, the check
  passes, and the first two bytes of the bank are copied with \<open>RESPONSE_SUCCESS\<close>.
\<close>

theorem read_window_address_wraps:
  assumes "MAX_MSG_SIZE \<le> length (msg r)"
  shows "read_window r TMR_GEN2_BANK_EPC 0x80000000 1 [d0, d1] 2 =
         Some (RESPONSE_SUCCESS, [msg r ! 23, msg r ! 24], 2)"
proof -
  have m: "rd (msg_arr r) (23 + 0) = Some (msg r ! 23)" "rd (msg_arr r) (23 + 1) = Some (msg r ! 24)"
    using assms by (simp_all add: rd_def msg_arr_def MAX_MSG_SIZE_def)
  have "copy_window (msg_arr r) 23 2 2 [d0, d1] 0 = Some ([msg r ! 23, msg r ! 24], 2)"
    using m
    by (subst copy_window.simps, simp add: wr_def)
      (subst copy_window.simps, simp add: wr_def, subst copy_window.simps, simp)
  then show ?thesis
    by (simp add: read_window_def)
qed

theorem read_window_address_wraps_witness:
  "read_window (reader_with epc_reply []) TMR_GEN2_BANK_EPC 0x80000000 1 [0, 0] 2 =
     Some (RESPONSE_SUCCESS, [0xE2, 0x00], 2)"
  using read_window_address_wraps [of "reader_with epc_reply []" 0 0]
  by (simp add: reader_with_def epc_reply_def MAX_MSG_SIZE_def)

section \<open>Reading all banks\<close>

lemma copy_bank_eq:
  assumes "0 \<le> base" and "nat base + n \<le> length m" and "n \<le> length lst" and "j \<le> n"
  shows "copy_bank m base lst j n =
         Some (take j lst @ take (n - j) (drop (nat base + j) m) @ drop n lst)"
  using assms
proof (induction m base lst j n rule: copy_bank.induct)
  case (1 m base lst j n)
  show ?case
  proof (cases "j < n")
    case False
    then show ?thesis
      using "1.prems" by (subst copy_bank.simps) simp
  next
    case True
    have i: "base + int j = int (nat base + j)"
      using "1.prems"(1) by simp
    have r: "rd m (base + int j) = Some (m ! (nat base + j))"
      unfolding i using True "1.prems" by (intro rd_nat) simp
    have w: "wr lst (int j) (m ! (nat base + j)) = Some (lst[j := m ! (nat base + j)])"
      using True "1.prems" by (simp add: wr_def)
    have "copy_bank m base lst j n = copy_bank m base (lst[j := m ! (nat base + j)]) (Suc j) n"
      using True r w by (subst copy_bank.simps) simp
    also have "\<dots> = Some (take (Suc j) (lst[j := m ! (nat base + j)]) @
        take (n - Suc j) (drop (nat base + Suc j) m) @ drop n (lst[j := m ! (nat base + j)]))"
      using "1.IH" [OF True r w] "1.prems" True by simp
    also have "take (Suc j) (lst[j := m ! (nat base + j)]) = take j lst @ [m ! (nat base + j)]"
      using True "1.prems" by (intro take_Suc_update) simp
    also have "drop n (lst[j := m ! (nat base + j)]) = drop n lst"
      using True by simp
    finally have c: "copy_bank m base lst j n =
        Some ((take j lst @ [m ! (nat base + j)]) @
          take (n - Suc j) (drop (nat base + Suc j) m) @ drop n lst)" .
    have "take (n - j) (drop (nat base + j) m) =
        m ! (nat base + j) # take (n - Suc j) (drop (nat base + Suc j) m)"
      using True "1.prems"
      by (metis (no_types, lifting) Cons_nth_drop_Suc Suc_diff_Suc add_Suc_right add_less_cancel_left
          less_le_trans take_Suc_Cons)
    then show ?thesis
      unfolding c by simp
  qed
qed

lemma copy_epc_eq:
  assumes "0 \<le> base" and "nat base + n \<le> length m" and "n \<le> length lst" and "j \<le> n"
    and "TMR_MAX_EPC_BYTE_COUNT \<le> length e"
  shows "\<exists>e'. copy_epc m base lst e j n =
         Some (take j lst @ take (n - j) (drop (nat base + j) m) @ drop n lst, e') \<and>
         length e' = length e \<and>
         (\<forall>k < length e. e' ! k =
            (if j \<le> k + 4 \<and> k + 4 < n \<and> k < TMR_MAX_EPC_BYTE_COUNT then m ! (nat base + k + 4)
             else e ! k))"
  using assms
proof (induction m base lst e j n rule: copy_epc.induct)
  case (1 m base lst e j n)
  show ?case
  proof (cases "j < n")
    case False
    then show ?thesis
      using "1.prems" by (subst copy_epc.simps) auto
  next
    case True
    let ?b = "m ! (nat base + j)"
    let ?e = "if 3 < j \<and> int j - 4 < int TMR_MAX_EPC_BYTE_COUNT then e[j - 4 := ?b] else e"
    have i: "base + int j = int (nat base + j)"
      using "1.prems"(1) by simp
    have r: "rd m (base + int j) = Some ?b"
      unfolding i using True "1.prems" by (intro rd_nat) simp
    have w: "wr lst (int j) ?b = Some (lst[j := ?b])"
      using True "1.prems" by (simp add: wr_def)
    have u: "(if 3 < j then
             (if int j - 4 < int TMR_MAX_EPC_BYTE_COUNT then do {
                v \<leftarrow> rd (lst[j := ?b]) (int j);
                wr e (int j - 4) v
              }
              else Some e)
           else Some e) = Some ?e"
      using True "1.prems" by (auto simp add: rd_def wr_def nat_diff_distrib)
    have le: "TMR_MAX_EPC_BYTE_COUNT \<le> length ?e" and le0: "length ?e = length e"
      using "1.prems" by simp_all
    have st: "copy_epc m base lst e j n = copy_epc m base (lst[j := ?b]) ?e (Suc j) n"
      using True by (subst copy_epc.simps) (simp only: r w u Option.bind.simps if_True)
    obtain e' where ih: "copy_epc m base (lst[j := ?b]) ?e (Suc j) n =
        Some (take (Suc j) (lst[j := ?b]) @ take (n - Suc j) (drop (nat base + Suc j) m) @
              drop n (lst[j := ?b]), e')" and le': "length e' = length ?e"
      and nth': "\<forall>k < length ?e. e' ! k =
            (if Suc j \<le> k + 4 \<and> k + 4 < n \<and> k < TMR_MAX_EPC_BYTE_COUNT then m ! (nat base + k + 4)
             else ?e ! k)"
      using "1.IH" [OF True r w u] "1.prems" True le by auto
    have t: "take (Suc j) (lst[j := ?b]) = take j lst @ [?b]"
      using True "1.prems" by (intro take_Suc_update) simp
    have d: "drop n (lst[j := ?b]) = drop n lst"
      using True by simp
    have "take (n - j) (drop (nat base + j) m) = ?b # take (n - Suc j) (drop (nat base + Suc j) m)"
      using True "1.prems"
      by (metis (no_types, lifting) Cons_nth_drop_Suc Suc_diff_Suc add_Suc_right add_less_cancel_left
          less_le_trans take_Suc_Cons)
    then have "copy_epc m base lst e j n =
        Some (take j lst @ take (n - j) (drop (nat base + j) m) @ drop n lst, e')"
      unfolding st ih t d by simp
    moreover have "length e' = length e"
      using le' by simp
    moreover have "\<forall>k < length e. e' ! k =
            (if j \<le> k + 4 \<and> k + 4 < n \<and> k < TMR_MAX_EPC_BYTE_COUNT then m ! (nat base + k + 4)
             else e ! k)"
    proof (intro allI impI)
      fix k
      assume k: "k < length e"
      then have n: "e' ! k =
            (if Suc j \<le> k + 4 \<and> k + 4 < n \<and> k < TMR_MAX_EPC_BYTE_COUNT then m ! (nat base + k + 4)
             else ?e ! k)"
        using nth' le0 by simp
      show "e' ! k =
            (if j \<le> k + 4 \<and> k + 4 < n \<and> k < TMR_MAX_EPC_BYTE_COUNT then m ! (nat base + k + 4)
             else e ! k)"
      proof (cases "j = k + 4")
        case True
        then show ?thesis
          using n k \<open>j < n\<close> by (auto simp add: ac_simps)
      next
        case False
        then have "?e ! k = e ! k"
          by auto
        then show ?thesis
          using n False by auto
      qed
    qed
    ultimately show ?thesis
      by blast
  qed
qed

lemma epc_pointwise:
  assumes "length e' = length e" and "TMR_MAX_EPC_BYTE_COUNT \<le> length e"
    and "b + n \<le> length m"
    and "\<forall>k < length e. e' ! k =
            (if 0 \<le> k + 4 \<and> k + 4 < n \<and> k < TMR_MAX_EPC_BYTE_COUNT then m ! (b + k + 4) else e ! k)"
  shows "e' = take (min (n - 4) TMR_MAX_EPC_BYTE_COUNT) (drop (b + 4) m) @
              drop (min (n - 4) TMR_MAX_EPC_BYTE_COUNT) e"
proof (rule nth_equalityI)
  let ?q = "min (n - 4) TMR_MAX_EPC_BYTE_COUNT"
  have q: "?q \<le> length e" "?q \<le> length (drop (b + 4) m)"
    using assms(2,3) by auto
  show l: "length e' = length (take ?q (drop (b + 4) m) @ drop ?q e)"
    using q assms(1) by simp
  fix k
  assume "k < length e'"
  then have k: "k < length e"
    using assms(1) by simp
  show "e' ! k = (take ?q (drop (b + 4) m) @ drop ?q e) ! k"
  proof (cases "k < ?q")
    case True
    then have "k + 4 < n" "k < TMR_MAX_EPC_BYTE_COUNT"
      by auto
    moreover have "b + 4 \<le> length m"
      using True assms(3) by auto
    then have "(take ?q (drop (b + 4) m) @ drop ?q e) ! k = m ! (b + 4 + k)"
      using True q by (simp add: nth_append)
    ultimately show ?thesis
      using assms(4) k by (simp add: ac_simps)
  next
    case False
    then have "\<not> (k + 4 < n \<and> k < TMR_MAX_EPC_BYTE_COUNT)"
      by auto
    moreover have "?q \<le> k"
      using False by (simp only: not_less)
    then have "(take ?q (drop (b + 4) m) @ drop ?q e) ! k = e ! k"
      using q k by (simp add: nth_append min_absorb2 del: min_less_iff_conj)
    ultimately show ?thesis
      using assms(4) k by auto
  qed
qed

lemma clamp_len:
  fixes mx :: u16 and bl :: u8
  shows "unat (if uint mx < uint bl then ucast mx else bl) = min (unat bl) (unat mx)"
proof (cases "uint mx < uint bl")
  case True
  then have lt: "unat mx < unat bl"
    unfolding uint_nat by linarith
  moreover have "unat bl < 256"
    using unsigned_less [of bl, where 'a = nat] by simp
  ultimately have "unat (ucast mx :: u8) = unat mx"
    by (simp add: unsigned_ucast_eq take_bit_nat_eq_self)
  then show ?thesis
    using True lt by simp
next
  case False
  then have "unat bl \<le> unat mx"
    unfolding uint_nat by linarith
  then show ?thesis
    using False by simp
qed

lemma read_bank_eq:
  assumes "24 + unat i + min (unat bl) (unat (max8 blk)) \<le> length m"
    and "unat (max8 blk) \<le> length (list8 blk)"
  shows "\<exists>bl'. unat bl' = min (unat bl) (unat (max8 blk)) \<and>
     read_bank m i bl blk =
       Some (bl', blk\<lparr>list8 := take (unat bl') (drop (24 + unat i) m) @ drop (unat bl') (list8 blk),
                       len8 := ucast bl'\<rparr>)"
proof -
  let ?bl = "if uint (max8 blk) < uint bl then ucast (max8 blk) else bl"
  have n: "unat ?bl = min (unat bl) (unat (max8 blk))"
    by (rule clamp_len)
  have b: "nat (24 + uint i) = 24 + unat i" "0 \<le> 24 + uint i"
    unfolding uint_nat by linarith+
  have "copy_bank m (24 + uint i) (list8 blk) 0 (unat ?bl) =
      Some (take 0 (list8 blk) @ take (unat ?bl - 0) (drop (nat (24 + uint i) + 0) m) @
            drop (unat ?bl) (list8 blk))"
    using assms b n by (intro copy_bank_eq) simp_all
  then have "read_bank m i bl blk =
       Some (?bl, blk\<lparr>list8 := take (unat ?bl) (drop (24 + unat i) m) @ drop (unat ?bl) (list8 blk),
                       len8 := ucast ?bl\<rparr>)"
    unfolding read_bank_def Let_def by (simp add: b)
  then show ?thesis
    using n by blast
qed

lemmas bank_ids =
  TMR_GEN2_BANK_RESERVED_def TMR_GEN2_BANK_EPC_def TMR_GEN2_BANK_TID_def TMR_GEN2_BANK_USER_def

lemma block_header:
  fixes i :: u8
  assumes "length m \<le> MAX_MSG_SIZE" and "25 + unat i < length m"
  shows "rd m (24 + uint i) = Some (m ! (24 + unat i))"
    and "rd m (24 + uint (i + 1)) = Some (m ! (25 + unat i))"
    and "unat (i + 1 + 1) = unat i + 2"
proof -
  have i: "unat i + 2 < 256"
    using assms by (simp_all add: MAX_MSG_SIZE_def)
  have "24 + uint i = int (24 + unat i)"
    unfolding uint_nat by simp
  then show "rd m (24 + uint i) = Some (m ! (24 + unat i))"
    using assms(2) by (simp only:) (rule rd_nat, simp)
  have "unat i + unat (1 :: u8) < 2 ^ LENGTH(8)"
    using i by simp
  then have "unat (i + 1) = unat i + unat (1 :: u8)"
    by (rule unat_add_lem [THEN iffD1])
  then have i1: "unat (i + 1) = unat i + 1"
    by simp
  then have "24 + uint (i + 1) = int (25 + unat i)"
    unfolding uint_nat by simp
  then show "rd m (24 + uint (i + 1)) = Some (m ! (25 + unat i))"
    using assms(2) by (simp only:) (rule rd_nat, simp)
  have "unat (i + 1) + unat (1 :: u8) < 2 ^ LENGTH(8)"
    using i i1 by simp
  then have "unat (i + 1 + 1) = unat (i + 1) + unat (1 :: u8)"
    by (rule unat_add_lem [THEN iffD1])
  then show "unat (i + 1 + 1) = unat i + 2"
    using i1 by simp
qed

lemma bank_block_unfold:
  fixes i :: u8
  assumes "length m \<le> MAX_MSG_SIZE" and "25 + unat i < length m"
    and "bank = block_type m i" and "w = m ! (25 + unat i)"
  shows "bank_block m i read =
    (if bank = TMR_GEN2_BANK_USER then
       read_bank m (i + 1 + 1) (w * 2) (userMemData read) \<bind>
         (\<lambda>(bankLength, blk). Some (Inr (i + 1 + 1 + bankLength, read\<lparr>userMemData := blk\<rparr>)))
     else if bank = TMR_GEN2_BANK_TID then
       read_bank m (i + 1 + 1) (w * 2) (tidMemData read) \<bind>
         (\<lambda>(bankLength, blk). Some (Inr (i + 1 + 1 + bankLength, read\<lparr>tidMemData := blk\<rparr>)))
     else if bank = TMR_GEN2_BANK_RESERVED then
       read_bank m (i + 1 + 1) (w * 2) (reservedMemData read) \<bind>
         (\<lambda>(bankLength, blk). Some (Inr (i + 1 + 1 + bankLength, read\<lparr>reservedMemData := blk\<rparr>)))
     else if bank = TMR_GEN2_BANK_EPC then
       (let blk = epcMemData read;
            bankLength = (if uint (max8 blk) < uint (w * 2) then ucast (max8 blk) else w * 2)
        in copy_epc m (24 + uint (i + 1 + 1)) (list8 blk) (epc read) 0 (unat bankLength) \<bind>
             (\<lambda>(lst, epc'). Some (Inr (i + 1 + 1 + bankLength,
                read\<lparr>epcMemData := blk\<lparr>list8 := lst, len8 := ucast bankLength\<rparr>,
                     epc := epc', epclen := bankLength - 4\<rparr>))))
     else Some (Inl RESPONSE_FAIL))"
  unfolding bank_block_def Let_def
  by (simp only: block_header(1,2) [OF assms(1,2)] Option.bind.simps
      assms(3) [unfolded block_type_def, symmetric] assms(4) [symmetric])

lemma of_nat_unat_u8: "(of_nat (unat (w :: u8)) :: u8) = w"
  by simp

lemma ucast_of_nat_u16: "(ucast (w :: u8) :: u16) = of_nat (unat w)"
  by simp

lemma bank_block_plain:
  fixes i :: u8
  assumes "length m \<le> MAX_MSG_SIZE" and "25 + unat i < length m"
    and "n = min (unat (m ! (25 + unat i) * 2)) (unat (max8 blk))"
    and "26 + unat i + n \<le> length m"
    and "unat (max8 blk) \<le> length (list8 blk)"
  shows "read_bank m (i + 1 + 1) (m ! (25 + unat i) * 2) blk = Some (of_nat n, filled_list m i n blk)"
proof -
  note h = block_header [OF assms(1,2)]
  have "24 + unat (i + 1 + 1) + min (unat (m ! (25 + unat i) * 2)) (unat (max8 blk)) \<le> length m"
    unfolding h(3) using assms(3,4) by simp
  from read_bank_eq [OF this assms(5)] obtain bl' where
    b: "unat bl' = n" and r: "read_bank m (i + 1 + 1) (m ! (25 + unat i) * 2) blk =
       Some (bl', blk\<lparr>list8 := take (unat bl') (drop (24 + unat (i + 1 + 1)) m) @
                                drop (unat bl') (list8 blk), len8 := ucast bl'\<rparr>)"
    using assms(3) by auto
  have "bl' = of_nat n"
    using b of_nat_unat_u8 [of bl'] by simp
  moreover have "ucast bl' = (of_nat n :: u16)"
    using b by (simp only: ucast_of_nat_u16)
  ultimately show ?thesis
    using r b unfolding h(3) filled_list_def by (simp add: ac_simps)
qed

lemma bank_block_epc:
  fixes i :: u8
  assumes "length m \<le> MAX_MSG_SIZE" and "25 + unat i < length m"
    and "n = min (unat (m ! (25 + unat i) * 2)) (unat (max8 (epcMemData read)))"
    and "26 + unat i + n \<le> length m"
    and "unat (max8 (epcMemData read)) \<le> length (list8 (epcMemData read))"
    and "TMR_MAX_EPC_BYTE_COUNT \<le> length (epc read)"
    and "block_type m i = TMR_GEN2_BANK_EPC"
  shows "bank_block m i read =
     Some (Inr (i + 1 + 1 + of_nat n,
              read\<lparr>epcMemData := filled_list m i n (epcMemData read),
                   epc := take (min (n - 4) TMR_MAX_EPC_BYTE_COUNT) (drop (30 + unat i) m) @
                          drop (min (n - 4) TMR_MAX_EPC_BYTE_COUNT) (epc read),
                   epclen := of_nat n - 4\<rparr>))"
proof -
  note h = block_header [OF assms(1,2)]
  let ?blk = "epcMemData read"
  let ?bl = "if uint (max8 ?blk) < uint (m ! (25 + unat i) * 2) then ucast (max8 ?blk)
             else m ! (25 + unat i) * 2"
  have n: "unat ?bl = n"
    using clamp_len [of "max8 ?blk" "m ! (25 + unat i) * 2"] assms(3) by simp
  have b: "nat (24 + uint (i + 1 + 1)) = 26 + unat i" "0 \<le> 24 + uint (i + 1 + 1)"
    unfolding uint_nat h(3) by linarith+
  have f: "nat (24 + uint (i + 1 + 1)) + n \<le> length m"
    unfolding b using assms(4) by simp
  have l: "n \<le> length (list8 ?blk)"
    using assms(3,5) by simp
  obtain e' where
    c: "copy_epc m (24 + uint (i + 1 + 1)) (list8 ?blk) (epc read) 0 n =
       Some (take 0 (list8 ?blk) @ take (n - 0) (drop (nat (24 + uint (i + 1 + 1)) + 0) m) @
             drop n (list8 ?blk), e')"
    and le: "length e' = length (epc read)"
    and nth: "\<forall>k < length (epc read). e' ! k =
            (if 0 \<le> k + 4 \<and> k + 4 < n \<and> k < TMR_MAX_EPC_BYTE_COUNT
             then m ! (nat (24 + uint (i + 1 + 1)) + k + 4) else epc read ! k)"
    using copy_epc_eq [OF b(2) f l _ assms(6), of 0] by auto
  have e: "e' = take (min (n - 4) TMR_MAX_EPC_BYTE_COUNT) (drop (26 + unat i + 4) m) @
              drop (min (n - 4) TMR_MAX_EPC_BYTE_COUNT) (epc read)"
    using le assms(6) assms(4) nth unfolding b by (rule epc_pointwise)
  have c': "copy_epc m (24 + uint (i + 1 + 1)) (list8 ?blk) (epc read) 0 (unat ?bl) =
       Some (take n (drop (26 + unat i) m) @ drop n (list8 ?blk), e')"
    using c unfolding b n by simp
  have bl: "?bl = of_nat n"
    using n of_nat_unat_u8 [of ?bl] by simp
  have bl16: "ucast ?bl = (of_nat n :: u16)"
    using n by (simp only: ucast_of_nat_u16)
  have "bank_block m i read =
     Some (Inr (i + 1 + 1 + ?bl,
              read\<lparr>epcMemData := ?blk
                     \<lparr>list8 := take n (drop (26 + unat i) m) @ drop n (list8 ?blk),
                      len8 := ucast ?bl\<rparr>,
                   epc := e', epclen := ?bl - 4\<rparr>))"
    unfolding bank_block_unfold [OF assms(1,2) refl refl] assms(7) Let_def
    by (simp only: c' Option.bind.simps prod.case) (simp add: bank_ids)
  then show ?thesis
    unfolding bl16 unfolding bl e filled_list_def by (simp add: ac_simps)
qed

text \<open>
  One pass of the loop over a block of a bank type the code knows, when the two header
  bytes and the bytes to copy lie in the array and the destination list has the \<open>max\<close>
  entries it declares: the list of that bank gets the bytes of the block, cut down to
  \<open>max\<close>, at its front and their number in \<open>len\<close>, nothing is written behind the list, and
  the loop goes on at \<open>i + 2\<close> plus the number of bytes copied.
\<close>

lemma bank_block_known:
  fixes i :: u8
  assumes "length m \<le> MAX_MSG_SIZE" and "25 + unat i < length m"
    and "block_type m i \<in> {TMR_GEN2_BANK_RESERVED, TMR_GEN2_BANK_EPC, TMR_GEN2_BANK_TID,
           TMR_GEN2_BANK_USER}"
    and "26 + unat i + clamped_length m i read \<le> length m"
    and "unat (max8 (bank_list (block_type m i) read)) \<le>
         length (list8 (bank_list (block_type m i) read))"
    and "TMR_MAX_EPC_BYTE_COUNT \<le> length (epc read)"
  shows "bank_block m i read =
         Some (Inr (i + 1 + 1 + of_nat (clamped_length m i read), block_stored m i read))"
proof -
  let ?n = "clamped_length m i read"
  note ub = bank_block_unfold [OF assms(1,2) refl refl]
  consider (user) "block_type m i = TMR_GEN2_BANK_USER" | (tid) "block_type m i = TMR_GEN2_BANK_TID"
    | (reserved) "block_type m i = TMR_GEN2_BANK_RESERVED" | (epc) "block_type m i = TMR_GEN2_BANK_EPC"
    using assms(3) by blast
  then show ?thesis
  proof cases
    case user
    then have bl: "bank_list (block_type m i) read = userMemData read"
      by (simp add: bank_list_def)
    have n: "?n = min (unat (m ! (25 + unat i) * 2)) (unat (max8 (userMemData read)))"
      by (simp add: clamped_length_def bl)
    show ?thesis
      using bank_block_plain [OF assms(1,2) n assms(4) assms(5) [unfolded bl]] user
      by (simp add: ub block_stored_def Let_def)
  next
    case tid
    then have bl: "bank_list (block_type m i) read = tidMemData read"
      by (simp add: bank_list_def bank_ids)
    have n: "?n = min (unat (m ! (25 + unat i) * 2)) (unat (max8 (tidMemData read)))"
      by (simp add: clamped_length_def bl)
    show ?thesis
      using bank_block_plain [OF assms(1,2) n assms(4) assms(5) [unfolded bl]] tid
      by (simp add: ub block_stored_def bank_ids Let_def)
  next
    case reserved
    then have bl: "bank_list (block_type m i) read = reservedMemData read"
      by (simp add: bank_list_def bank_ids)
    have n: "?n = min (unat (m ! (25 + unat i) * 2)) (unat (max8 (reservedMemData read)))"
      by (simp add: clamped_length_def bl)
    show ?thesis
      using bank_block_plain [OF assms(1,2) n assms(4) assms(5) [unfolded bl]] reserved
      by (simp add: ub block_stored_def bank_ids Let_def)
  next
    case epc
    then have bl: "bank_list (block_type m i) read = epcMemData read"
      by (simp add: bank_list_def bank_ids)
    have n: "?n = min (unat (m ! (25 + unat i) * 2)) (unat (max8 (epcMemData read)))"
      by (simp add: clamped_length_def bl)
    show ?thesis
      using bank_block_epc [OF assms(1,2) n assms(4) assms(5) [unfolded bl] assms(6) epc] epc
      by (simp add: block_stored_def bank_ids Let_def)
  qed
qed

text \<open>A block of any other bank type ends the loop with \<open>RESPONSE_FAIL\<close>.\<close>

lemma bank_block_unknown:
  fixes i :: u8
  assumes "length m \<le> MAX_MSG_SIZE" and "25 + unat i < length m"
    and "block_type m i \<notin> {TMR_GEN2_BANK_RESERVED, TMR_GEN2_BANK_EPC, TMR_GEN2_BANK_TID,
           TMR_GEN2_BANK_USER}"
  shows "bank_block m i read = Some (Inl RESPONSE_FAIL)"
  using assms(3) by (simp add: bank_block_unfold [OF assms(1,2) refl refl])

lemma banks_loop_known:
  fixes i :: u8
  assumes "uint i < uint datalength"
    and "length m \<le> MAX_MSG_SIZE" and "25 + unat i < length m"
    and "block_type m i \<in> {TMR_GEN2_BANK_RESERVED, TMR_GEN2_BANK_EPC, TMR_GEN2_BANK_TID,
           TMR_GEN2_BANK_USER}"
    and "26 + unat i + clamped_length m i read \<le> length m"
    and "unat (max8 (bank_list (block_type m i) read)) \<le>
         length (list8 (bank_list (block_type m i) read))"
    and "TMR_MAX_EPC_BYTE_COUNT \<le> length (epc read)"
  shows "banks_loop m datalength i read =
         banks_loop m datalength (i + 1 + 1 + of_nat (clamped_length m i read)) (block_stored m i read)"
  by (subst banks_loop.simps) (simp add: assms(1) bank_block_known [OF assms(2-7)])

lemma banks_loop_unknown:
  fixes i :: u8
  assumes "uint i < uint datalength"
    and "length m \<le> MAX_MSG_SIZE" and "25 + unat i < length m"
    and "block_type m i \<notin> {TMR_GEN2_BANK_RESERVED, TMR_GEN2_BANK_EPC, TMR_GEN2_BANK_TID,
           TMR_GEN2_BANK_USER}"
  shows "banks_loop m datalength i read = Some (RESPONSE_FAIL, read)"
  by (subst banks_loop.simps) (simp add: assms(1) bank_block_unknown [OF assms(2-4)])

lemma banks_loop_done:
  assumes "\<not> uint i < uint datalength"
  shows "banks_loop m datalength i read = Some (ALL_GOOD, read)"
  by (subst banks_loop.simps) (simp add: assms)

text \<open>
  When the block is longer than the \<open>max\<close> of its list, the loop goes on \<open>max\<close> bytes behind
  the header, which is inside the data of the block: the pass steps over what it has
  copied (\<^verbatim>\<open>i += bankLength\<close> behind the clamp), not over the block.
\<close>

lemma banks_loop_truncated:
  fixes i :: u8
  assumes "uint i < uint datalength"
    and "length m \<le> MAX_MSG_SIZE" and "25 + unat i < length m"
    and "block_type m i \<in> {TMR_GEN2_BANK_RESERVED, TMR_GEN2_BANK_EPC, TMR_GEN2_BANK_TID,
           TMR_GEN2_BANK_USER}"
    and "26 + unat i + clamped_length m i read \<le> length m"
    and "unat (max8 (bank_list (block_type m i) read)) \<le>
         length (list8 (bank_list (block_type m i) read))"
    and "TMR_MAX_EPC_BYTE_COUNT \<le> length (epc read)"
    and "unat (max8 (bank_list (block_type m i) read)) < unat (m ! (25 + unat i) * 2)"
  shows "\<exists>i'. banks_loop m datalength i read = banks_loop m datalength i' (block_stored m i read) \<and>
           unat i' = unat i + 2 + unat (max8 (bank_list (block_type m i) read)) \<and>
           unat i' < unat i + 2 + unat (m ! (25 + unat i) * 2)"
proof -
  let ?n = "clamped_length m i read"
  have n: "?n = unat (max8 (bank_list (block_type m i) read))"
    using assms(8) by (simp add: clamped_length_def)
  have "unat i + 2 + ?n < 256"
    using assms(2,5) by (simp add: MAX_MSG_SIZE_def)
  then have "unat (i + 1 + 1 + of_nat ?n) = unat i + 2 + ?n"
    using block_header(3) [OF assms(2,3)]
    by (simp add: unat_word_ariths unat_of_nat)
  then show ?thesis
    using banks_loop_known [OF assms(1-7)] assms(8) n by auto
qed

text \<open>
  The length in bytes is computed in a \<open>uint8_t\<close>: a block that declares 128 words has
  the length 0 there, so nothing of it is copied and \<open>len\<close> becomes 0.
\<close>

lemma clamped_length_wraps: "m ! (25 + unat i) = 0x80 \<Longrightarrow> clamped_length m i read = 0"
  by (simp add: clamped_length_def)

text \<open>
  The decoder of the tag buffer reads its fixed fields and enters the loop over the
  banks with the length of the bank data in bytes.
\<close>

lemma parse_tag_buffer_eq:
  assumes "24 \<le> length m"
  shows "parse_tag_buffer m read =
     banks_loop m (ucast ((push_bit 8 (ucast (m ! 22) :: u32) OR ucast (m ! 23)) div 8)) 0
       (read\<lparr>rssi := word_of_int (uint (m ! 10) - 256),
         frequency := push_bit 16 (ucast (m ! 12)) OR push_bit 8 (ucast (m ! 13)) OR ucast (m ! 14),
         timestamp := push_bit 24 (ucast (m ! 15)) OR push_bit 16 (ucast (m ! 16)) OR
                      push_bit 8 (ucast (m ! 17)) OR ucast (m ! 18)\<rparr>)"
proof -
  have r: "\<And>k. k < 24 \<Longrightarrow> rd m (int k) = Some (m ! k)"
    using assms(1) by (intro rd_nat) simp
  have rs: "rd m 10 = Some (m ! 10)" "rd m 12 = Some (m ! 12)" "rd m 13 = Some (m ! 13)"
    "rd m 14 = Some (m ! 14)" "rd m 15 = Some (m ! 15)" "rd m 16 = Some (m ! 16)"
    "rd m 17 = Some (m ! 17)" "rd m 18 = Some (m ! 18)" "rd m 22 = Some (m ! 22)"
    "rd m 23 = Some (m ! 23)"
    using r [of 10] r [of 12] r [of 13] r [of 14] r [of 15] r [of 16] r [of 17] r [of 18]
      r [of 22] r [of 23]
    by simp_all
  show ?thesis
    unfolding parse_tag_buffer_def Let_def
    by (simp only: rs Option.bind.simps)
qed

lemma sendMessage_answer:
  assumes "MAX_MSG_SIZE \<le> length (msg r)" and "unat size' \<le> length data"
    and "unat size' + 4 < MAX_MSG_SIZE"
    and "peer (rfidSerial r) = f # later"
    and "complete_frame f" and "length f < MAX_MSG_SIZE"
  shows "\<exists>r' rest. sendMessage r opcode data size' timeOut True = Some r' \<and>
     length rest = MAX_MSG_SIZE - length f \<and>
     msg r' = (if \<not> crc_valid f then ERROR_CORRUPT_RESPONSE
               else if f ! 2 \<noteq> opcode then ERROR_WRONG_OPCODE_RESPONSE
               else ALL_GOOD) # tl f @ rest \<and>
     peer (rfidSerial r') = later"
proof -
  have p: "peer (rfidSerial r) = (f @ []) # later"
    using assms(4) by simp
  obtain cmd where c: "length cmd = MAX_MSG_SIZE"
    and s: "sendMessage r opcode data size' timeOut True =
       Some (r\<lparr>msg := (f @ drop (length f) cmd)
                     [0 := (if \<not> crc_valid f then ERROR_CORRUPT_RESPONSE
                            else if f ! 2 \<noteq> opcode then ERROR_WRONG_OPCODE_RESPONSE
                            else ALL_GOOD)],
               rfidSerial := (rfidSerial r)
                 \<lparr>rx := [], tx := tx (rfidSerial r) @ take (unat size' + 5) cmd,
                  peer := later\<rparr>\<rparr>)"
    using sendMessage_reply [OF assms(1-3) p assms(5,6)] by blast
  have "f \<noteq> []"
    using assms(5) by (auto simp add: complete_frame_def)
  then obtain a as where f: "f = a # as"
    by (cases f) auto
  let ?v = "if \<not> crc_valid f then ERROR_CORRUPT_RESPONSE
            else if f ! 2 \<noteq> opcode then ERROR_WRONG_OPCODE_RESPONSE else ALL_GOOD"
  let ?r = "r\<lparr>msg := ?v # tl f @ drop (length f) cmd,
               rfidSerial := (rfidSerial r)
                 \<lparr>rx := [], tx := tx (rfidSerial r) @ take (unat size' + 5) cmd,
                  peer := later\<rparr>\<rparr>"
  have "(f @ drop (length f) cmd)[0 := ?v] = ?v # tl f @ drop (length f) cmd"
    by (simp only: f) simp
  then have "sendMessage r opcode data size' timeOut True = Some ?r"
    using s by (simp only:)
  moreover have "length (drop (length f) cmd) = MAX_MSG_SIZE - length f"
    using c by simp
  moreover have "msg ?r = ?v # tl f @ drop (length f) cmd" "peer (rfidSerial ?r) = later"
    by simp_all
  ultimately show ?thesis
    by blast
qed

lemma answer_arr:
  assumes "complete_frame f" and "length f < MAX_MSG_SIZE"
    and "length rest = MAX_MSG_SIZE - length f" and "msg r = v # tl f @ rest"
  shows "MAX_MSG_SIZE \<le> length (msg r)" and "msg_arr r = v # tl f @ rest"
    and "rd (msg_arr r) 0 = Some v"
    and "\<And>k. 0 < k \<Longrightarrow> k < length f \<Longrightarrow> rd (msg_arr r) (int k) = Some (f ! k)"
proof -
  have "f \<noteq> []"
    using assms(1) by (auto simp add: complete_frame_def)
  then obtain a as where f: "f = a # as"
    by (cases f) auto
  show l: "MAX_MSG_SIZE \<le> length (msg r)"
    using assms(2,3,4) f by simp
  have "length (msg r) = MAX_MSG_SIZE"
    using assms(2,3,4) f by simp
  then show a: "msg_arr r = v # tl f @ rest"
    using assms(4) by (simp add: msg_arr_def)
  show "rd (msg_arr r) 0 = Some v"
    unfolding a by (simp add: rd_def)
  fix k :: nat
  assume k: "0 < k" "k < length f"
  then have "k < length (v # tl f @ rest)" "(v # tl f @ rest) ! k = f ! k"
    using f by (auto simp add: nth_Cons nth_append split: nat.splits)
  then show "rd (msg_arr r) (int k) = Some (f ! k)"
    unfolding a using rd_nat [of k "v # tl f @ rest"] by simp
qed

text \<open>
  \<open>ReadingAllBanks\<close> in front of a module that answers the four commands with complete
  frames, the third a good answer to the inventory with a successful read, the fourth a
  good answer to the request for the tag buffer: the result is what the decoder makes
  of the array that then holds the fourth frame.
\<close>

lemma ReadingAllBanks_replies:
  assumes "MAX_MSG_SIZE \<le> length (msg r)"
    and "peer (rfidSerial r) = f1 # f2 # f3 # f4 # later"
    and "complete_frame f1" "length f1 < MAX_MSG_SIZE"
    and "complete_frame f2" "length f2 < MAX_MSG_SIZE"
    and "complete_frame f3" "length f3 < MAX_MSG_SIZE"
    and "complete_frame f4" "length f4 < MAX_MSG_SIZE"
    and "crc_valid f3" "f3 ! 2 = TMR_SR_OPCODE_READ_TAG_ID_MULTIPLE" "19 \<le> length f3"
    and "push_bit 8 (ucast (f3 ! 15)) OR ucast (f3 ! 16) \<noteq> (0 :: u16)"
    and "crc_valid f4" "f4 ! 2 = TMR_SR_OPCODE_GET_TAG_ID_BUFFER"
  shows "\<exists>r' rest. length rest = MAX_MSG_SIZE - length f4 \<and> peer (rfidSerial r') = later \<and>
     ReadingAllBanks r read =
       parse_tag_buffer (ALL_GOOD # tl f4 @ rest)
         (read\<lparr>TagCount := push_bit 8 (ucast (f3 ! 11)) OR ucast (f3 ! 12),
               succesCount := push_bit 8 (ucast (f3 ! 15)) OR ucast (f3 ! 16),
               failureCount := push_bit 8 (ucast (f3 ! 17)) OR ucast (f3 ! 18)\<rparr>) \<bind>
       (\<lambda>(code, read'). Some (r', code, read'))"
proof -
  obtain r1 rest1 where s1: "disableReadFilter r = Some r1"
    and m1: "length rest1 = MAX_MSG_SIZE - length f1"
      "msg r1 = (if \<not> crc_valid f1 then ERROR_CORRUPT_RESPONSE
               else if f1 ! 2 \<noteq> TMR_SR_OPCODE_SET_READER_OPTIONAL_PARAMS
               then ERROR_WRONG_OPCODE_RESPONSE else ALL_GOOD) # tl f1 @ rest1"
    and p1: "peer (rfidSerial r1) = f2 # f3 # f4 # later"
    unfolding disableReadFilter_def setReaderConfiguration_def
    using sendMessage_answer [OF assms(1) _ _ assms(2,3,4), of 3 "[1, 0x0C, 0x00]"
        TMR_SR_OPCODE_SET_READER_OPTIONAL_PARAMS COMMAND_TIME_OUT]
    by (auto simp add: MAX_MSG_SIZE_def)
  note a1 = answer_arr [OF assms(3,4) m1]
  obtain r2 rest2 where s2: "sendMessage r1 TMR_SR_OPCODE_CLEAR_TAG_ID_BUFFER [] 0
        COMMAND_TIME_OUT True = Some r2"
    and m2: "length rest2 = MAX_MSG_SIZE - length f2"
      "msg r2 = (if \<not> crc_valid f2 then ERROR_CORRUPT_RESPONSE
               else if f2 ! 2 \<noteq> TMR_SR_OPCODE_CLEAR_TAG_ID_BUFFER
               then ERROR_WRONG_OPCODE_RESPONSE else ALL_GOOD) # tl f2 @ rest2"
    and p2: "peer (rfidSerial r2) = f3 # f4 # later"
    using sendMessage_answer [OF a1(1) _ _ p1 assms(5,6), of 0 "[]"
        TMR_SR_OPCODE_CLEAR_TAG_ID_BUFFER COMMAND_TIME_OUT]
    by (auto simp add: MAX_MSG_SIZE_def)
  note a2 = answer_arr [OF assms(5,6) m2]
  obtain r3 rest3 where s3: "sendMessage r2 TMR_SR_OPCODE_READ_TAG_ID_MULTIPLE allbanks_configBlob 20
        COMMAND_TIME_OUT True = Some r3"
    and m3: "length rest3 = MAX_MSG_SIZE - length f3" "msg r3 = ALL_GOOD # tl f3 @ rest3"
    and p3: "peer (rfidSerial r3) = f4 # later"
    using sendMessage_answer [OF a2(1) _ _ p2 assms(7,8), of 20 allbanks_configBlob
        TMR_SR_OPCODE_READ_TAG_ID_MULTIPLE COMMAND_TIME_OUT] assms(11,12)
    by (auto simp add: MAX_MSG_SIZE_def allbanks_configBlob_def)
  note a3 = answer_arr [OF assms(7,8) m3]
  have rd3: "rd (msg_arr r3) 11 = Some (f3 ! 11)" "rd (msg_arr r3) 12 = Some (f3 ! 12)"
    "rd (msg_arr r3) 15 = Some (f3 ! 15)" "rd (msg_arr r3) 16 = Some (f3 ! 16)"
    "rd (msg_arr r3) 17 = Some (f3 ! 17)" "rd (msg_arr r3) 18 = Some (f3 ! 18)"
    using a3(4) [of 11] a3(4) [of 12] a3(4) [of 15] a3(4) [of 16] a3(4) [of 17] a3(4) [of 18]
      assms(13)
    by simp_all
  obtain r4 rest4 where s4: "sendMessage r3 TMR_SR_OPCODE_GET_TAG_ID_BUFFER [0x0f, 0xff, 0x00] 3
        COMMAND_TIME_OUT True = Some r4"
    and m4: "length rest4 = MAX_MSG_SIZE - length f4" "msg r4 = ALL_GOOD # tl f4 @ rest4"
    and p4: "peer (rfidSerial r4) = later"
    using sendMessage_answer [OF a3(1) _ _ p3 assms(9,10), of 3 "[0x0f, 0xff, 0x00]"
        TMR_SR_OPCODE_GET_TAG_ID_BUFFER COMMAND_TIME_OUT] assms(15,16)
    by (auto simp add: MAX_MSG_SIZE_def)
  note a4 = answer_arr [OF assms(9,10) m4]
  have "ReadingAllBanks r read =
       parse_tag_buffer (ALL_GOOD # tl f4 @ rest4)
         (read\<lparr>TagCount := push_bit 8 (ucast (f3 ! 11)) OR ucast (f3 ! 12),
               succesCount := push_bit 8 (ucast (f3 ! 15)) OR ucast (f3 ! 16),
               failureCount := push_bit 8 (ucast (f3 ! 17)) OR ucast (f3 ! 18)\<rparr>) \<bind>
       (\<lambda>(code, read'). Some (r4, code, read'))"
    unfolding ReadingAllBanks_def
    apply (simp only: s1 s2 s3 Option.bind.simps a3(3) rd3 Let_def)
    apply (simp add: assms(14) s4 a4(3))
    apply (simp only: a4(2))
    done
  then show ?thesis
    using m4(1) p4 by blast
qed

lemma tag_buffer_arr:
  assumes "length rest = MAX_MSG_SIZE - length tag_buffer_reply"
  shows "length (ALL_GOOD # tl tag_buffer_reply @ rest) = 255"
    and "(ALL_GOOD # tl tag_buffer_reply @ rest) ! 10 = 0xE9"
    and "(ALL_GOOD # tl tag_buffer_reply @ rest) ! 12 = 0x0E"
    and "(ALL_GOOD # tl tag_buffer_reply @ rest) ! 13 = 0x0E"
    and "(ALL_GOOD # tl tag_buffer_reply @ rest) ! 14 = 0x70"
    and "(ALL_GOOD # tl tag_buffer_reply @ rest) ! 15 = 0"
    and "(ALL_GOOD # tl tag_buffer_reply @ rest) ! 16 = 0"
    and "(ALL_GOOD # tl tag_buffer_reply @ rest) ! 17 = 0"
    and "(ALL_GOOD # tl tag_buffer_reply @ rest) ! 18 = 0x39"
    and "(ALL_GOOD # tl tag_buffer_reply @ rest) ! 22 = 0"
    and "(ALL_GOOD # tl tag_buffer_reply @ rest) ! 23 = 0xC0"
    and "(ALL_GOOD # tl tag_buffer_reply @ rest) ! 24 = 0x10"
    and "(ALL_GOOD # tl tag_buffer_reply @ rest) ! 25 = 0x08"
    and "(ALL_GOOD # tl tag_buffer_reply @ rest) ! 32 = 0x00"
    and "(ALL_GOOD # tl tag_buffer_reply @ rest) ! 33 = 0x15"
    and "(ALL_GOOD # tl tag_buffer_reply @ rest) ! 40 = 0x7D"
    and "(ALL_GOOD # tl tag_buffer_reply @ rest) ! 41 = 0xBB"
    and "(ALL_GOOD # tl tag_buffer_reply @ rest) ! 42 = 0x30"
    and "(ALL_GOOD # tl tag_buffer_reply @ rest) ! 43 = 0x02"
    and "take 16 (drop 26 (ALL_GOOD # tl tag_buffer_reply @ rest)) =
         [0x78, 0xDE, 0x30, 0x00, 0xE2, 0x00, 0x00, 0x15, 0x86, 0x0E, 0x02, 0x68, 0x15, 0x50,
          0x7D, 0xBB]"
    and "take 6 (drop 34 (ALL_GOOD # tl tag_buffer_reply @ rest)) =
         [0x86, 0x0E, 0x02, 0x68, 0x15, 0x50]"
    and "take 4 (drop 44 (ALL_GOOD # tl tag_buffer_reply @ rest)) = [0xAA, 0xBB, 0xCC, 0xDD]"
    and "take 6 (drop 26 (ALL_GOOD # tl tag_buffer_reply @ rest)) =
         [0x78, 0xDE, 0x30, 0x00, 0xE2, 0x00]"
    and "take 2 (drop 30 (ALL_GOOD # tl tag_buffer_reply @ rest)) = [0xE2, 0x00]"
    and "take 12 (drop 30 (ALL_GOOD # tl tag_buffer_reply @ rest)) =
         [0xE2, 0x00, 0x00, 0x15, 0x86, 0x0E, 0x02, 0x68, 0x15, 0x50, 0x7D, 0xBB]"
  using assms by (simp_all add: tag_buffer_reply_def MAX_MSG_SIZE_def)

lemma tag_buffer_room6:
  assumes "length rest = MAX_MSG_SIZE - length tag_buffer_reply"
  shows "parse_tag_buffer (ALL_GOOD # tl tag_buffer_reply @ rest)
           ((room_read 6)\<lparr>TagCount := 1, succesCount := 1, failureCount := 0\<rparr>) =
         Some (RESPONSE_FAIL,
           \<lparr>epc = [0xE2, 0x00] @ replicate 30 0, epclen = 2, TagCount = 1, succesCount = 1,
            failureCount = 0, rssi = - 23, frequency = 0x0E0E70, timestamp = 0x39,
            epcMemData = \<lparr>list8 = [0x78, 0xDE, 0x30, 0x00, 0xE2, 0x00], max8 = 6, len8 = 6\<rparr>,
            tidMemData = room_list 6, userMemData = room_list 6,
            reservedMemData = \<lparr>list8 = [0x86, 0x0E, 0x02, 0x68, 0x15, 0x50], max8 = 6, len8 = 6\<rparr>\<rparr>)"
proof -
  define m where "m = ALL_GOOD # tl tag_buffer_reply @ rest"
  note b = tag_buffer_arr [OF assms, folded m_def]
  define read0 where "read0 =
     \<lparr>epc = replicate 32 0, epclen = 0, TagCount = 1, succesCount = 1,
      failureCount = 0, rssi = - 23, frequency = 0x0E0E70, timestamp = 0x39,
      epcMemData = room_list 6, tidMemData = room_list 6, userMemData = room_list 6,
      reservedMemData = room_list 6\<rparr>"
  define read1 where "read1 = read0\<lparr>epc := [0xE2, 0x00] @ replicate 30 0, epclen := 2,
      epcMemData := \<lparr>list8 = [0x78, 0xDE, 0x30, 0x00, 0xE2, 0x00], max8 = 6, len8 = 6\<rparr>\<rparr>"
  define read2 where "read2 = read1\<lparr>reservedMemData :=
      \<lparr>list8 = [0x86, 0x0E, 0x02, 0x68, 0x15, 0x50], max8 = 6, len8 = 6\<rparr>\<rparr>"
  have p: "parse_tag_buffer m ((room_read 6)\<lparr>TagCount := 1, succesCount := 1, failureCount := 0\<rparr>) =
      banks_loop m 24 0 read0"
    using b(1) by (simp add: parse_tag_buffer_eq b read0_def room_read_def)
  have lm: "length m \<le> MAX_MSG_SIZE"
    using b(1) by (simp add: MAX_MSG_SIZE_def)
  have t0: "block_type m 0 = TMR_GEN2_BANK_EPC"
    by (simp add: block_type_def b bank_ids)
  have c0: "clamped_length m 0 read0 = 6"
    by (simp add: clamped_length_def t0 b bank_list_def bank_ids read0_def room_list_def)
  have s0: "block_stored m 0 read0 = read1"
    unfolding block_stored_def Let_def c0 t0
    by (simp add: bank_ids read0_def read1_def room_list_def filled_list_def
        TMR_MAX_EPC_BYTE_COUNT_def b)
  have k0: "unat (max8 (bank_list (block_type m 0) read0)) \<le>
         length (list8 (bank_list (block_type m 0) read0))"
    "TMR_MAX_EPC_BYTE_COUNT \<le> length (epc read0)"
    by (simp_all add: t0 bank_list_def bank_ids read0_def room_list_def TMR_MAX_EPC_BYTE_COUNT_def)
  have l0: "banks_loop m 24 0 read0 = banks_loop m 24 8 read1"
    using banks_loop_known [of 0 24 m read0] lm b(1) k0 by (simp add: t0 c0 s0)
  have t1: "block_type m 8 = TMR_GEN2_BANK_RESERVED"
    by (simp add: block_type_def b bank_ids)
  have c1: "clamped_length m 8 read1 = 6"
    by (simp add: clamped_length_def t1 b bank_list_def bank_ids read1_def read0_def room_list_def)
  have s1: "block_stored m 8 read1 = read2"
    unfolding block_stored_def Let_def c1 t1
    by (simp add: bank_ids read0_def read1_def read2_def room_list_def filled_list_def b)
  have k1: "unat (max8 (bank_list (block_type m 8) read1)) \<le>
         length (list8 (bank_list (block_type m 8) read1))"
    "TMR_MAX_EPC_BYTE_COUNT \<le> length (epc read1)"
    by (simp_all add: t1 bank_list_def bank_ids read0_def read1_def room_list_def
        TMR_MAX_EPC_BYTE_COUNT_def)
  have l1: "banks_loop m 24 8 read1 = banks_loop m 24 16 read2"
    using banks_loop_known [of 8 24 m read1] lm b(1) k1 by (simp add: t1 c1 s1)
  have t2: "block_type m 16 = 7"
    by (simp add: block_type_def b)
  have l2: "banks_loop m 24 16 read2 = Some (RESPONSE_FAIL, read2)"
    using banks_loop_unknown [of 16 24 m read2] lm b(1) by (simp add: t2 bank_ids)
  show ?thesis
    unfolding m_def [symmetric] p l0 l1 l2
    by (simp add: read2_def read1_def read0_def)
qed

lemma tag_buffer_room64:
  assumes "length rest = MAX_MSG_SIZE - length tag_buffer_reply"
  shows "parse_tag_buffer (ALL_GOOD # tl tag_buffer_reply @ rest)
           ((room_read 64)\<lparr>TagCount := 1, succesCount := 1, failureCount := 0\<rparr>) =
         Some (ALL_GOOD,
           \<lparr>epc = [0xE2, 0x00, 0x00, 0x15, 0x86, 0x0E, 0x02, 0x68, 0x15, 0x50, 0x7D, 0xBB] @
                  replicate 20 0,
            epclen = 12, TagCount = 1, succesCount = 1,
            failureCount = 0, rssi = - 23, frequency = 0x0E0E70, timestamp = 0x39,
            epcMemData =
              \<lparr>list8 = [0x78, 0xDE, 0x30, 0x00, 0xE2, 0x00, 0x00, 0x15, 0x86, 0x0E, 0x02, 0x68,
                        0x15, 0x50, 0x7D, 0xBB] @ replicate 48 0,
               max8 = 64, len8 = 16\<rparr>,
            tidMemData = room_list 64,
            userMemData = \<lparr>list8 = [0xAA, 0xBB, 0xCC, 0xDD] @ replicate 60 0, max8 = 64, len8 = 4\<rparr>,
            reservedMemData = room_list 64\<rparr>)"
proof -
  define m where "m = ALL_GOOD # tl tag_buffer_reply @ rest"
  note b = tag_buffer_arr [OF assms, folded m_def]
  define read0 where "read0 =
     \<lparr>epc = replicate 32 0, epclen = 0, TagCount = 1, succesCount = 1,
      failureCount = 0, rssi = - 23, frequency = 0x0E0E70, timestamp = 0x39,
      epcMemData = room_list 64, tidMemData = room_list 64, userMemData = room_list 64,
      reservedMemData = room_list 64\<rparr>"
  define read1 where "read1 = read0\<lparr>
      epc := [0xE2, 0x00, 0x00, 0x15, 0x86, 0x0E, 0x02, 0x68, 0x15, 0x50, 0x7D, 0xBB] @
             replicate 20 0,
      epclen := 12,
      epcMemData := \<lparr>list8 = [0x78, 0xDE, 0x30, 0x00, 0xE2, 0x00, 0x00, 0x15, 0x86, 0x0E, 0x02,
                              0x68, 0x15, 0x50, 0x7D, 0xBB] @ replicate 48 0,
                     max8 = 64, len8 = 16\<rparr>\<rparr>"
  define read2 where "read2 = read1\<lparr>userMemData :=
      \<lparr>list8 = [0xAA, 0xBB, 0xCC, 0xDD] @ replicate 60 0, max8 = 64, len8 = 4\<rparr>\<rparr>"
  have p: "parse_tag_buffer m ((room_read 64)\<lparr>TagCount := 1, succesCount := 1, failureCount := 0\<rparr>) =
      banks_loop m 24 0 read0"
    using b(1) by (simp add: parse_tag_buffer_eq b read0_def room_read_def)
  have lm: "length m \<le> MAX_MSG_SIZE"
    using b(1) by (simp add: MAX_MSG_SIZE_def)
  have t0: "block_type m 0 = TMR_GEN2_BANK_EPC"
    by (simp add: block_type_def b bank_ids)
  have c0: "clamped_length m 0 read0 = 16"
    by (simp add: clamped_length_def t0 b bank_list_def bank_ids read0_def room_list_def)
  have s0: "block_stored m 0 read0 = read1"
    unfolding block_stored_def Let_def c0 t0
    by (simp add: bank_ids read0_def read1_def room_list_def filled_list_def
        TMR_MAX_EPC_BYTE_COUNT_def b)
  have k0: "unat (max8 (bank_list (block_type m 0) read0)) \<le>
         length (list8 (bank_list (block_type m 0) read0))"
    "TMR_MAX_EPC_BYTE_COUNT \<le> length (epc read0)"
    by (simp_all add: t0 bank_list_def bank_ids read0_def room_list_def TMR_MAX_EPC_BYTE_COUNT_def)
  have l0: "banks_loop m 24 0 read0 = banks_loop m 24 18 read1"
    using banks_loop_known [of 0 24 m read0] lm b(1) k0 by (simp add: t0 c0 s0)
  have t1: "block_type m 18 = TMR_GEN2_BANK_USER"
    by (simp add: block_type_def b bank_ids)
  have c1: "clamped_length m 18 read1 = 4"
    by (simp add: clamped_length_def t1 b bank_list_def bank_ids read1_def read0_def room_list_def)
  have s1: "block_stored m 18 read1 = read2"
    unfolding block_stored_def Let_def c1 t1
    by (simp add: bank_ids read0_def read1_def read2_def room_list_def filled_list_def b)
  have k1: "unat (max8 (bank_list (block_type m 18) read1)) \<le>
         length (list8 (bank_list (block_type m 18) read1))"
    "TMR_MAX_EPC_BYTE_COUNT \<le> length (epc read1)"
    by (simp_all add: t1 bank_list_def bank_ids read0_def read1_def room_list_def
        TMR_MAX_EPC_BYTE_COUNT_def)
  have l1: "banks_loop m 24 18 read1 = banks_loop m 24 24 read2"
    using banks_loop_known [of 18 24 m read1] lm b(1) k1 by (simp add: t1 c1 s1)
  have l2: "banks_loop m 24 24 read2 = Some (ALL_GOOD, read2)"
    by (rule banks_loop_done) simp
  show ?thesis
    unfolding m_def [symmetric] p l0 l1 l2
    by (simp add: read2_def read1_def read0_def)
qed

lemma reply_frames:
  "complete_frame filter_reply" "length filter_reply < MAX_MSG_SIZE"
  "complete_frame clear_reply" "length clear_reply < MAX_MSG_SIZE"
  "complete_frame inventory_reply" "length inventory_reply < MAX_MSG_SIZE"
  "complete_frame tag_buffer_reply" "length tag_buffer_reply < MAX_MSG_SIZE"
  "inventory_reply ! 2 = TMR_SR_OPCODE_READ_TAG_ID_MULTIPLE" "19 \<le> length inventory_reply"
  "tag_buffer_reply ! 2 = TMR_SR_OPCODE_GET_TAG_ID_BUFFER"
  "push_bit 8 (ucast (inventory_reply ! 11)) OR ucast (inventory_reply ! 12) = (1 :: u16)"
  "push_bit 8 (ucast (inventory_reply ! 15)) OR ucast (inventory_reply ! 16) = (1 :: u16)"
  "push_bit 8 (ucast (inventory_reply ! 17)) OR ucast (inventory_reply ! 18) = (0 :: u16)"
  by (simp_all add: complete_frame_def filter_reply_def clear_reply_def inventory_reply_def
      tag_buffer_reply_def MAX_MSG_SIZE_def TMR_SR_OPCODE_READ_TAG_ID_MULTIPLE_def
      TMR_SR_OPCODE_GET_TAG_ID_BUFFER_def)

lemma crc_valid_filter_reply: "crc_valid filter_reply"
  by (simp add: crc_eval filter_reply_def)

lemma crc_valid_clear_reply: "crc_valid clear_reply"
  by (simp add: crc_eval clear_reply_def)

lemma crc_valid_inventory_reply: "crc_valid inventory_reply"
  by (simp add: crc_eval inventory_reply_def)

lemma crc_valid_tag_buffer_reply: "crc_valid tag_buffer_reply"
  by (simp add: crc_eval tag_buffer_reply_def)

text \<open>
  Claim C8. The claim says that for every bank block of the payload the parser copies
  the block, cut down to the capacity of the destination, reports that length, and
  fails only on a bank type that is none of the four. The code does so for a block that
  fits its destination, and for a bank type it does not know (\<open>bank_block_known\<close>,
  \<open>bank_block_unknown\<close>). It does not once a block has been cut down: the loop steps over
  the bytes it has copied, not over the block (\<^verbatim>\<open>i += bankLength\<close> behind the clamp), and
  takes the next header out of the data of the block it has just cut.

  Here the tag buffer holds an EPC bank of 16 bytes and a user bank of 4 bytes, and
  every list of the destination has room for 6 bytes. The first pass copies 6 bytes of
  the EPC bank and goes on at byte 6 of its data, \<open>00 15\<close>: a reserved bank of \<open>0x15\<close> words,
  so the second pass fills the list of the reserved bank with the EPC bytes
  \<open>86 0E 02 68 15 50\<close>. The third pass reads \<open>7D\<close>, bank type 7, and the function returns
  \<open>RESPONSE_FAIL\<close>, though both blocks of the payload have a bank type the code knows.
  The user bank, which fits its list, is never copied: the list stays as it was, with
  \<open>len = 0\<close>.
\<close>

theorem ReadingAllBanks_truncated_block:
  assumes "MAX_MSG_SIZE \<le> length (msg r)"
    and "peer (rfidSerial r) =
         filter_reply # clear_reply # inventory_reply # tag_buffer_reply # later"
  shows "\<exists>r'. ReadingAllBanks r (room_read 6) =
        Some (r', RESPONSE_FAIL,
           \<lparr>epc = [0xE2, 0x00] @ replicate 30 0, epclen = 2, TagCount = 1, succesCount = 1,
            failureCount = 0, rssi = - 23, frequency = 0x0E0E70, timestamp = 0x39,
            epcMemData = \<lparr>list8 = [0x78, 0xDE, 0x30, 0x00, 0xE2, 0x00], max8 = 6, len8 = 6\<rparr>,
            tidMemData = room_list 6, userMemData = room_list 6,
            reservedMemData = \<lparr>list8 = [0x86, 0x0E, 0x02, 0x68, 0x15, 0x50], max8 = 6, len8 = 6\<rparr>\<rparr>) \<and>
        peer (rfidSerial r') = later"
proof -
  from ReadingAllBanks_replies [OF assms reply_frames(1-8) crc_valid_inventory_reply
      reply_frames(9,10) _ crc_valid_tag_buffer_reply reply_frames(11), of "room_read 6"]
  obtain r' rest where "length rest = MAX_MSG_SIZE - length tag_buffer_reply"
    and "peer (rfidSerial r') = later"
    and "ReadingAllBanks r (room_read 6) =
       parse_tag_buffer (ALL_GOOD # tl tag_buffer_reply @ rest)
         ((room_read 6)\<lparr>TagCount := 1, succesCount := 1, failureCount := 0\<rparr>) \<bind>
       (\<lambda>(code, read'). Some (r', code, read'))"
    unfolding reply_frames(12-14) by auto
  then show ?thesis
    by (simp add: tag_buffer_room6)
qed

theorem ReadingAllBanks_truncated_block_witness:
  "\<exists>r'. ReadingAllBanks
          (reader_with [] [filter_reply, clear_reply, inventory_reply, tag_buffer_reply])
          (room_read 6) =
        Some (r', RESPONSE_FAIL,
           \<lparr>epc = [0xE2, 0x00] @ replicate 30 0, epclen = 2, TagCount = 1, succesCount = 1,
            failureCount = 0, rssi = - 23, frequency = 0x0E0E70, timestamp = 0x39,
            epcMemData = \<lparr>list8 = [0x78, 0xDE, 0x30, 0x00, 0xE2, 0x00], max8 = 6, len8 = 6\<rparr>,
            tidMemData = room_list 6, userMemData = room_list 6,
            reservedMemData = \<lparr>list8 = [0x86, 0x0E, 0x02, 0x68, 0x15, 0x50], max8 = 6, len8 = 6\<rparr>\<rparr>) \<and>
        peer (rfidSerial r') = [] \<and> len8 (room_list 6) = 0"
  using ReadingAllBanks_truncated_block
    [of "reader_with [] [filter_reply, clear_reply, inventory_reply, tag_buffer_reply]" "[]"]
  by (simp add: reader_with_def room_list_def)

text \<open>
  The same answers with room for 64 bytes in every list: no block is cut, both are
  copied whole, and the function returns \<open>ALL_GOOD\<close>.
\<close>

lemma ReadingAllBanks_room_for_all:
  assumes "MAX_MSG_SIZE \<le> length (msg r)"
    and "peer (rfidSerial r) =
         filter_reply # clear_reply # inventory_reply # tag_buffer_reply # later"
  shows "\<exists>r'. ReadingAllBanks r (room_read 64) =
        Some (r', ALL_GOOD,
           \<lparr>epc = [0xE2, 0x00, 0x00, 0x15, 0x86, 0x0E, 0x02, 0x68, 0x15, 0x50, 0x7D, 0xBB] @
                  replicate 20 0,
            epclen = 12, TagCount = 1, succesCount = 1,
            failureCount = 0, rssi = - 23, frequency = 0x0E0E70, timestamp = 0x39,
            epcMemData =
              \<lparr>list8 = [0x78, 0xDE, 0x30, 0x00, 0xE2, 0x00, 0x00, 0x15, 0x86, 0x0E, 0x02, 0x68,
                        0x15, 0x50, 0x7D, 0xBB] @ replicate 48 0,
               max8 = 64, len8 = 16\<rparr>,
            tidMemData = room_list 64,
            userMemData = \<lparr>list8 = [0xAA, 0xBB, 0xCC, 0xDD] @ replicate 60 0, max8 = 64, len8 = 4\<rparr>,
            reservedMemData = room_list 64\<rparr>) \<and>
        peer (rfidSerial r') = later"
proof -
  from ReadingAllBanks_replies [OF assms reply_frames(1-8) crc_valid_inventory_reply
      reply_frames(9,10) _ crc_valid_tag_buffer_reply reply_frames(11), of "room_read 64"]
  obtain r' rest where "length rest = MAX_MSG_SIZE - length tag_buffer_reply"
    and "peer (rfidSerial r') = later"
    and "ReadingAllBanks r (room_read 64) =
       parse_tag_buffer (ALL_GOOD # tl tag_buffer_reply @ rest)
         ((room_read 64)\<lparr>TagCount := 1, succesCount := 1, failureCount := 0\<rparr>) \<bind>
       (\<lambda>(code, read'). Some (r', code, read'))"
    unfolding reply_frames(12-14) by auto
  then show ?thesis
    by (simp add: tag_buffer_room64)
qed

section \<open>The RSSI\<close>

lemma rssi_i8: "(word_of_int (uint (b :: u8) - 256) :: 8 word) = b"
proof -
  have "uint (word_of_int (uint b - 256) :: 8 word) = (uint b - 256) mod 2 ^ LENGTH(8)"
    by (simp only: uint_word_of_int)
  also have "\<dots> = uint b mod 256"
    by simp
  also have "\<dots> = uint b"
    using uint_bounded [of b] by simp
  finally show ?thesis
    by (simp only: word_uint_eq_iff)
qed

lemma sint_u8: "sint (b :: u8) = (if 128 \<le> uint b then uint b - 256 else uint b)"
proof -
  have s: "sint b = (uint b + 128) mod 256 - 128"
    by (simp add: sint_uint signed_take_bit_eq_take_bit_shift take_bit_eq_mod)
  have bd: "0 \<le> uint b" "uint b < 256"
    using uint_bounded [of b] by simp_all
  show ?thesis
  proof (cases "128 \<le> uint b")
    case True
    have "uint b + 128 = uint b - 128 + 256"
      by arith
    then have "(uint b + 128) mod 256 = (uint b - 128 + 256) mod 256"
      by (rule arg_cong)
    also have "\<dots> = (uint b - 128) mod 256"
      by (rule mod_add_self2)
    also have "\<dots> = uint b - 128"
      using True bd by simp
    finally have "(uint b + 128) mod 256 = uint b - 128" .
    then show ?thesis
      using True s by simp
  next
    case False
    then have "(uint b + 128) mod 256 = uint b + 128"
      using bd by simp
    then show ?thesis
      using False s by simp
  qed
qed

text \<open>\<open>getTagRSSI\<close> returns the byte read as a signed byte.\<close>

lemma getTagRSSI_signed:
  assumes "rd (msg_arr r) 12 = Some b"
  shows "getTagRSSI r = Some (if 128 \<le> uint b then uint b - 256 else uint b)"
  unfolding getTagRSSI_def by (simp only: assms Option.bind.simps rssi_i8 sint_u8)

lemma rssi_i32: "sint (word_of_int (uint (b :: u8) - 256) :: u32) = uint b - 256"
proof -
  have "0 \<le> uint b" "uint b < 256"
    using uint_bounded [of b] by simp_all
  then have "signed_take_bit (LENGTH(32) - Suc 0) (uint b - 256) = uint b - 256"
    by (intro signed_take_bit_int_eq_self) simp_all
  then show ?thesis
    by (simp only: signed_of_int) simp
qed

text \<open>
  Claim C9. The claim says that the RSSI of every tag record is the payload byte read as
  a signed byte: \<open>b - 256\<close> from 128 on, \<open>b\<close> below. \<open>getTagRSSI\<close> returns that. The
  decoder of \<open>ReadingAllBanks\<close> does not: it stores \<open>b - 256\<close> for every byte, also below
  128, because its \<open>rssi\<close> is an \<open>int32_t\<close>. Here for a tag buffer that declares no bank
  data.
\<close>

theorem parse_tag_buffer_rssi:
  assumes "24 \<le> length m" and "m ! 22 = 0" and "m ! 23 = 0"
  shows "\<exists>read'. parse_tag_buffer m read = Some (ALL_GOOD, read') \<and>
           sint (rssi read') = uint (m ! 10) - 256"
proof -
  have r: "\<And>k. k < 24 \<Longrightarrow> rd m (int k) = Some (m ! k)"
    using assms(1) by (intro rd_nat) simp
  have rs: "rd m 10 = Some (m ! 10)" "rd m 12 = Some (m ! 12)" "rd m 13 = Some (m ! 13)"
    "rd m 14 = Some (m ! 14)" "rd m 15 = Some (m ! 15)" "rd m 16 = Some (m ! 16)"
    "rd m 17 = Some (m ! 17)" "rd m 18 = Some (m ! 18)" "rd m 22 = Some 0" "rd m 23 = Some 0"
    using r [of 10] r [of 12] r [of 13] r [of 14] r [of 15] r [of 16] r [of 17] r [of 18]
      r [of 22] r [of 23] assms(2,3)
    by simp_all
  have l: "\<And>rd'. banks_loop m 0 0 rd' = Some (ALL_GOOD, rd')"
    by (subst banks_loop.simps) simp
  have "parse_tag_buffer m read =
     Some (ALL_GOOD, read\<lparr>rssi := word_of_int (uint (m ! 10) - 256),
       frequency := push_bit 16 (ucast (m ! 12)) OR push_bit 8 (ucast (m ! 13)) OR ucast (m ! 14),
       timestamp := push_bit 24 (ucast (m ! 15)) OR push_bit 16 (ucast (m ! 16)) OR
                    push_bit 8 (ucast (m ! 17)) OR ucast (m ! 18)\<rparr>)"
    unfolding parse_tag_buffer_def Let_def
    by (simp only: rs Option.bind.simps) (simp add: l)
  then show ?thesis
    using rssi_i32 [of "m ! 10"] by (simp)
qed

theorem parse_tag_buffer_rssi_witness:
  "\<exists>read'. parse_tag_buffer rssi_sample small_read = Some (ALL_GOOD, read') \<and>
           sint (rssi read') = - 156"
  using parse_tag_buffer_rssi [of rssi_sample small_read]
  by (simp add: rssi_sample_def)
end
